theory Spec2Isabelle
  imports Main
begin

section \<open>Strings and regular expressions of the host language\<close>

text \<open>
  The error-message parser of the Perl 6 language server is written with JavaScript
  regular expressions. The repository holds it twice: in \<open>server/src/server.ts\<close>
  (\<open>parse_undeclared\<close>, \<open>parse_missing_libs\<close>, \<open>parse_generic_single\<close>,
  \<open>parse_generics\<close>, \<open>parseErrorMessage\<close>) and in the server source kept with
  \<open>client/package.json\<close> (\<open>parseUndeclared\<close>, \<open>parseMissingLibs\<close>, \<open>parseGenerics\<close>,
  \<open>parseErrorMessage\<close>). The two differ in the generic shape; both are modelled.

  A JavaScript string is a sequence of code units; here it is a \<^typ>\<open>string\<close>, one
  \<^typ>\<open>char\<close> per code unit, so the model covers the texts whose code units are below
  256 (the white space of \<open>\s\<close> and the line terminators of \<open>.\<close> beyond that range do
  not occur in them). \<open>length\<close> counts code units, as \<open>.length\<close> does.

  The regular expressions of the source use literals, character classes, the greedy
  quantifiers \<open>?\<close>, \<open>*\<close>, \<open>+\<close> and the lazy \<open>*?\<close> on single characters or classes, capture
  groups around one quantified class, and the assertions \<open>^\<close> and \<open>$\<close> (no \<open>m\<close> flag). The
  matcher below is the backtracking search of the language for that fragment: the
  alternatives of a quantifier are tried in priority order and the first complete match
  wins.
\<close>

definition LF :: char where
  "LF = CHR 0x0A"

definition CR :: char where
  "CR = CHR 0x0D"

datatype cls =
    Dot                 \<comment> \<open>\<open>.\<close>: any character but a line terminator\<close>
  | Space               \<comment> \<open>\<open>\s\<close>\<close>
  | NonSpace            \<comment> \<open>\<open>\S\<close>\<close>
  | Digit               \<comment> \<open>\<open>\d\<close>\<close>
  | OneOf string        \<comment> \<open>\<open>[...]\<close> of listed characters\<close>
  | Union cls cls       \<comment> \<open>\<open>[...]\<close> of two classes, as in \<open>[\s\S]\<close>\<close>

definition is_space :: "char \<Rightarrow> bool" where
  "is_space c = (c \<in> set [CHR 0x09, CHR 0x0A, CHR 0x0B, CHR 0x0C, CHR 0x0D, CHR 0x20, CHR 0xA0])"

fun in_cls :: "cls \<Rightarrow> char \<Rightarrow> bool" where
  "in_cls Dot c = (c \<noteq> LF \<and> c \<noteq> CR)"
| "in_cls Space c = is_space c"
| "in_cls NonSpace c = (\<not> is_space c)"
| "in_cls Digit c = (c \<in> set ''0123456789'')"
| "in_cls (OneOf cs) c = (c \<in> set cs)"
| "in_cls (Union a b) c = (in_cls a c \<or> in_cls b c)"

datatype atom =
    Lit string          \<comment> \<open>a literal run of characters\<close>
  | Set cls             \<comment> \<open>one character of a class\<close>
  | Opt char            \<comment> \<open>\<open>c?\<close>, greedy\<close>
  | Star cls            \<comment> \<open>\<open>x*\<close>, greedy\<close>
  | Plus cls            \<comment> \<open>\<open>x+\<close>, greedy\<close>
  | LazyStar cls        \<comment> \<open>\<open>x*?\<close>\<close>
  | Cap atom            \<comment> \<open>\<open>(...)\<close>, a capture group\<close>
  | Bol                 \<comment> \<open>\<open>^\<close>\<close>
  | Eol                 \<comment> \<open>\<open>$\<close>\<close>

type_synonym regex = "atom list"

text \<open>
  \<open>cands a i s\<close>: the numbers of characters the atom \<open>a\<close> may consume at index \<open>i\<close> of
  the input, \<open>s\<close> being the input from \<open>i\<close> on, in the order the engine tries them.
\<close>

fun cands :: "atom \<Rightarrow> nat \<Rightarrow> string \<Rightarrow> nat list" where
  "cands (Lit l) i s = (if take (length l) s = l then [length l] else [])"
| "cands (Set k) i s = (case s of [] \<Rightarrow> [] | c # _ \<Rightarrow> if in_cls k c then [1] else [])"
| "cands (Opt c) i s = (case s of [] \<Rightarrow> [0] | d # _ \<Rightarrow> if d = c then [1, 0] else [0])"
| "cands (Star k) i s = rev [0 ..< Suc (length (takeWhile (in_cls k) s))]"
| "cands (Plus k) i s = rev [1 ..< Suc (length (takeWhile (in_cls k) s))]"
| "cands (LazyStar k) i s = [0 ..< Suc (length (takeWhile (in_cls k) s))]"
| "cands (Cap a) i s = cands a i s"
| "cands Bol i s = (if i = 0 then [0] else [])"
| "cands Eol i s = (if s = [] then [0] else [])"

fun is_cap :: "atom \<Rightarrow> bool" where
  "is_cap (Cap a) = True"
| "is_cap a = False"

text \<open>
  \<open>match_here r i s\<close> matches the whole of \<open>r\<close> at index \<open>i\<close>; the result is the list of
  captured strings, in the order of the groups, and the number of characters matched.
  \<open>try_cands\<close> is the backtracking over the candidates of the first atom.
\<close>

fun match_here :: "regex \<Rightarrow> nat \<Rightarrow> string \<Rightarrow> (string list \<times> nat) option"
  and try_cands :: "atom \<Rightarrow> regex \<Rightarrow> nat \<Rightarrow> string \<Rightarrow> nat list \<Rightarrow> (string list \<times> nat) option"
where
  "match_here [] i s = Some ([], 0)"
| "match_here (a # r) i s = try_cands a r i s (cands a i s)"
| "try_cands a r i s [] = None"
| "try_cands a r i s (k # ks) =
     (case match_here r (i + k) (drop k s) of
        Some (caps, n) \<Rightarrow> Some (if is_cap a then take k s # caps else caps, k + n)
      | None \<Rightarrow> try_cands a r i s ks)"

text \<open>The result of \<open>RegExp.prototype.exec\<close>: \<open>m.index\<close>, \<open>m[0]\<close> and \<open>m[1], m[2], ...\<close>.\<close>

record RegExpExecArray =
  index :: nat
  matched :: string
  groups :: "string list"

text \<open>\<open>search r i s\<close>: the leftmost match of \<open>r\<close> at or after index \<open>i\<close>, \<open>s\<close> being the input from \<open>i\<close> on.\<close>

fun search :: "regex \<Rightarrow> nat \<Rightarrow> string \<Rightarrow> RegExpExecArray option" where
  "search r i [] =
     (case match_here r i [] of
        Some (caps, n) \<Rightarrow> Some \<lparr>index = i, matched = [], groups = caps\<rparr>
      | None \<Rightarrow> None)"
| "search r i (c # s) =
     (case match_here r i (c # s) of
        Some (caps, n) \<Rightarrow> Some \<lparr>index = i, matched = take n (c # s), groups = caps\<rparr>
      | None \<Rightarrow> search r (Suc i) s)"

definition exec :: "regex \<Rightarrow> string \<Rightarrow> RegExpExecArray option" where
  "exec r s = search r 0 s"

text \<open>\<open>m[k]\<close> for \<open>k \<ge> 1\<close>. Every regular expression below has as many groups as the code reads.\<close>

definition group :: "RegExpExecArray \<Rightarrow> nat \<Rightarrow> string" where
  "group m k = (case drop (k - 1) (groups m) of g # _ \<Rightarrow> g | [] \<Rightarrow> [])"

text \<open>\<open>s.replace(r, "")\<close> for a regular expression without the \<open>g\<close> flag: the first match is removed.\<close>

definition replace_empty :: "regex \<Rightarrow> string \<Rightarrow> string" where
  "replace_empty r s =
     (case exec r s of
        None \<Rightarrow> s
      | Some m \<Rightarrow> take (index m) s @ drop (index m + length (matched m)) s)"

text \<open>\<open>s.split(/\r?\n/g)\<close>: a line break is \<open>\n\<close> or \<open>\r\n\<close>; a lone \<open>\r\<close> stays in its line.\<close>

fun split_lines :: "string \<Rightarrow> string list" where
  "split_lines [] = [[]]"
| "split_lines (c # s) =
     (if c = LF then [] # split_lines s
      else if c = CR \<and> take 1 s = [LF] then [] # split_lines (drop 1 s)
      else (case split_lines s of l # ls \<Rightarrow> (c # l) # ls | [] \<Rightarrow> [[c]]))"

text \<open>
  Numbers. The source reads a line number with \<open>+m[2] - 1\<close>, in IEEE double precision.
  For a string \<open>s\<close> of decimal digits, \<open>+s\<close> is the double nearest to the number the
  digits denote, the tie going to the even significand, and \<open>Infinity\<close> when that number
  is \<open>2^1024 - 2^970\<close> or more (as Node's engine computes it); \<open>x - 1\<close> is the double
  nearest to the difference. The doubles met here are integers or infinite: \<open>Num n\<close>
  is the double of value \<open>n\<close>. Every integer below \<open>2^53 = 9007199254740992\<close> in
  magnitude is a double; a larger one is rounded to 53 significant bits.
\<close>

datatype number = Num int | Infinity | NegInfinity

function bit_length :: "int \<Rightarrow> nat" where
  "bit_length n = (if n \<le> 0 then 0 else Suc (bit_length (n div 2)))"
  by pat_completeness auto
termination
  by (relation "measure nat") auto

declare bit_length.simps [simp del]

definition round_to_53_bits :: "int \<Rightarrow> int" where
  "round_to_53_bits n =
     (let e = bit_length n - 53;
          q = n div 2 ^ e;
          r = n mod 2 ^ e;
          h = 2 ^ (e - 1)
      in (if h < r \<or> (r = h \<and> odd q) then q + 1 else q) * 2 ^ e)"

definition to_double :: "int \<Rightarrow> number" where
  "to_double z =
     (if \<bar>z\<bar> < 9007199254740992 then Num z
      else let v = round_to_53_bits \<bar>z\<bar>
           in if v < 2 ^ 1024 then Num (if z < 0 then - v else v)
              else if 0 < z then Infinity else NegInfinity)"

text \<open>The number a string of decimal digits denotes, and \<open>+s\<close>.\<close>

definition digit_val :: "char \<Rightarrow> int" where
  "digit_val c = int (of_char c - (48::nat))"

definition decimal :: "string \<Rightarrow> int" where
  "decimal s = foldl (\<lambda>n c. 10 * n + digit_val c) 0 s"

definition to_number :: "string \<Rightarrow> number" where
  "to_number s = to_double (decimal s)"

text \<open>\<open>x - k\<close> for a double \<open>x\<close> and a small integer \<open>k\<close>.\<close>

fun js_minus :: "number \<Rightarrow> int \<Rightarrow> number" where
  "js_minus (Num x) k = to_double (x - k)"
| "js_minus Infinity k = Infinity"
| "js_minus NegInfinity k = NegInfinity"

text \<open>\<open>k \<le> x\<close> for an integer \<open>k\<close> and a double \<open>x\<close>.\<close>

fun at_least :: "int \<Rightarrow> number \<Rightarrow> bool" where
  "at_least k (Num n) = (k \<le> n)"
| "at_least k Infinity = True"
| "at_least k NegInfinity = False"


section \<open>Diagnostics\<close>

text \<open>The diagnostic of the language-server protocol, with the fields the parser writes.\<close>

datatype DiagnosticSeverity = Error | Warning | Information | Hint

record Position =
  line :: number
  character :: int

record Range =
  start :: Position
  end' :: Position

record Diagnostic =
  severity :: DiagnosticSeverity
  range' :: Range
  message :: string
  source :: string

section \<open>The regular expressions of the parser\<close>

text \<open>\<^verbatim>\<open>/^\s+(\S+) used at line (\d+)(.*)$/\<close>\<close>

definition re_used_at :: regex where
  "re_used_at =
     [Bol, Plus Space, Cap (Plus NonSpace), Lit '' used at line '', Cap (Plus Digit),
      Cap (Star Dot), Eol]"

text \<open>\<^verbatim>\<open>/Could not find (\S+) at line (\d+) in:[\r\n]([\s\S]+)/\<close>\<close>

definition re_missing_libs :: regex where
  "re_missing_libs =
     [Lit ''Could not find '', Cap (Plus NonSpace), Lit '' at line '', Cap (Plus Digit),
      Lit '' in:'', Set (OneOf [CR, LF]), Cap (Plus (Union Space NonSpace))]"

text \<open>\<^verbatim>\<open>/Undeclared names?:\r?\n([\s\S]+)/\<close>\<close>

definition re_undeclared_names :: regex where
  "re_undeclared_names =
     [Lit ''Undeclared name'', Opt CHR ''s'', Lit '':'', Opt CR, Lit [LF],
      Cap (Plus (Union Space NonSpace))]"

text \<open>\<^verbatim>\<open>/Undeclared routines?:\r?\n([\s\S]+)/\<close>\<close>

definition re_undeclared_routines :: regex where
  "re_undeclared_routines =
     [Lit ''Undeclared routine'', Opt CHR ''s'', Lit '':'', Opt CR, Lit [LF],
      Cap (Plus (Union Space NonSpace))]"

text \<open>\<^verbatim>\<open>/===SORRY.*\r?\n/\<close>\<close>

definition re_sorry :: regex where
  "re_sorry = [Lit ''===SORRY'', Star Dot, Opt CR, Lit [LF]]"

text \<open>\<^verbatim>\<open>/(.*)\r?\nat .*?:(\d+)\r?\n------> .*/\<close>, of \<open>parseGenerics\<close>\<close>

definition re_generic :: regex where
  "re_generic =
     [Cap (Star Dot), Opt CR, Lit [LF], Lit ''at '', LazyStar Dot, Lit '':'', Cap (Plus Digit),
      Opt CR, Lit [LF], Lit ''------> '', Star Dot]"

text \<open>\<^verbatim>\<open>/(.*)\r?\nat .*?:(\d+)\r?\n------> (.*)/\<close>, of \<open>parse_generic_single\<close>\<close>

definition re_generic_single :: regex where
  "re_generic_single =
     [Cap (Star Dot), Opt CR, Lit [LF], Lit ''at '', LazyStar Dot, Lit '':'', Cap (Plus Digit),
      Opt CR, Lit [LF], Lit ''------> '', Cap (Star Dot)]"

text \<open>\<^verbatim>\<open>/.*\r?\nat .*?:\d+\r?\n------> .*/\<close>, of \<open>parse_generics\<close>\<close>

definition re_generics :: regex where
  "re_generics =
     [Star Dot, Opt CR, Lit [LF], Lit ''at '', LazyStar Dot, Lit '':'', Plus Digit,
      Opt CR, Lit [LF], Lit ''------> '', Star Dot]"

section \<open>The parser kept with \<open>client/package.json\<close>\<close>

text \<open>
  Every function of the source pushes onto the array \<open>diagnostics\<close> it is given; the model
  takes the array and returns it extended.
\<close>

fun parseUndeclared_loop :: "string \<Rightarrow> string list \<Rightarrow> Diagnostic list \<Rightarrow> Diagnostic list" where
  "parseUndeclared_loop type [] diagnostics = diagnostics"
| "parseUndeclared_loop type (l # next_lines) diagnostics =
     (case exec re_used_at l of
        Some m2 \<Rightarrow>
          (let name = group m2 1;
               line_num = js_minus (to_number (group m2 2)) 1;
               advice = group m2 3
           in parseUndeclared_loop type next_lines
                (diagnostics @
                  [\<lparr>severity = Error,
                    range' = \<lparr>start = \<lparr>line = line_num, character = 0\<rparr>,
                              end' = \<lparr>line = line_num, character = 1000\<rparr>\<rparr>,
                    message = type @ '' '' @ name @ '' is not declared'' @ advice,
                    source = ''perl6''\<rparr>]))
      | None \<Rightarrow> diagnostics)"

definition parseUndeclared :: "string \<Rightarrow> string \<Rightarrow> Diagnostic list \<Rightarrow> Diagnostic list" where
  "parseUndeclared type lines diagnostics =
     parseUndeclared_loop type (split_lines lines) diagnostics"

definition parseMissingLibs :: "RegExpExecArray \<Rightarrow> Diagnostic list \<Rightarrow> Diagnostic list" where
  "parseMissingLibs m diagnostics =
     (let missing_lib = group m 1;
          line_num = js_minus (to_number (group m 2)) 1;
          lib_paths = group m 3
      in diagnostics @
           [\<lparr>severity = Error,
             range' = \<lparr>start = \<lparr>line = line_num, character = 0\<rparr>,
                       end' = \<lparr>line = line_num, character = 1000\<rparr>\<rparr>,
             message = ''Could not find '' @ missing_lib @ '' in:'' @ [LF] @ lib_paths,
             source = ''perl6''\<rparr>])"

definition parseGenerics :: "string \<Rightarrow> Diagnostic list \<Rightarrow> Diagnostic list" where
  "parseGenerics msg diagnostics =
     (let text = replace_empty re_sorry msg;
          (finding, line_num) =
            (case exec re_generic text of
               Some m \<Rightarrow> (group m 1, js_minus (to_number (group m 2)) 1)
             | None \<Rightarrow> (text, Num 0))
      in diagnostics @
           [\<lparr>severity = Error,
             range' = \<lparr>start = \<lparr>line = line_num, character = 0\<rparr>,
                       end' = \<lparr>line = line_num, character = 1000\<rparr>\<rparr>,
             message = finding,
             source = ''perl6''\<rparr>])"

definition parseErrorMessage :: "string \<Rightarrow> Diagnostic list \<Rightarrow> Diagnostic list" where
  "parseErrorMessage msg diagnostics =
     (case exec re_missing_libs msg of
        Some m \<Rightarrow> parseMissingLibs m diagnostics
      | None \<Rightarrow>
          (let diagnostics1 =
                 (case exec re_undeclared_names msg of
                    Some m \<Rightarrow> parseUndeclared ''name'' (group m 1) diagnostics
                  | None \<Rightarrow> diagnostics)
           in (case exec re_undeclared_routines msg of
                 Some m \<Rightarrow> parseUndeclared ''routine'' (group m 1) diagnostics1
               | None \<Rightarrow> parseGenerics msg diagnostics1)))"


section \<open>The parser of \<open>server/src/server.ts\<close>\<close>

text \<open>
  \<open>parse_generic_single\<close> reads \<open>m[1]\<close> of a match it does not test: on \<open>null\<close> that is a
  \<open>TypeError\<close>, which the model returns as a value. (It never comes to that:
  \<open>parseErrorMessage_server_returns\<close> below.) The loop of \<open>parse_generics\<close> drops at
  least one character of the text at every turn; its termination is proved with the
  bounds on a match, below.
\<close>

datatype js_error = TypeError

fun parse_undeclared_loop :: "string \<Rightarrow> string list \<Rightarrow> Diagnostic list \<Rightarrow> Diagnostic list" where
  "parse_undeclared_loop type [] diagnostics = diagnostics"
| "parse_undeclared_loop type (l # next_lines) diagnostics =
     (case exec re_used_at l of
        Some m2 \<Rightarrow>
          (let name = group m2 1;
               line_num = js_minus (to_number (group m2 2)) 1;
               advice = group m2 3
           in parse_undeclared_loop type next_lines
                (diagnostics @
                  [\<lparr>severity = Error,
                    range' = \<lparr>start = \<lparr>line = line_num, character = 0\<rparr>,
                              end' = \<lparr>line = line_num, character = 1000\<rparr>\<rparr>,
                    message = type @ '' '' @ name @ '' is not declared'' @ advice,
                    source = ''perl6''\<rparr>]))
      | None \<Rightarrow> diagnostics)"

definition parse_undeclared :: "string \<Rightarrow> string \<Rightarrow> Diagnostic list \<Rightarrow> Diagnostic list" where
  "parse_undeclared type lines diagnostics =
     parse_undeclared_loop type (split_lines lines) diagnostics"

definition parse_missing_libs :: "RegExpExecArray \<Rightarrow> Diagnostic list \<Rightarrow> Diagnostic list" where
  "parse_missing_libs m diagnostics =
     (let missing_lib = group m 1;
          line_num = js_minus (to_number (group m 2)) 1;
          lib_paths = group m 3
      in diagnostics @
           [\<lparr>severity = Error,
             range' = \<lparr>start = \<lparr>line = line_num, character = 0\<rparr>,
                       end' = \<lparr>line = line_num, character = 1000\<rparr>\<rparr>,
             message = ''Could not find '' @ missing_lib @ '' in:'' @ [LF] @ lib_paths,
             source = ''perl6''\<rparr>])"

definition parse_generic_single :: "string \<Rightarrow> Diagnostic list \<Rightarrow> js_error + Diagnostic list" where
  "parse_generic_single msg diagnostics =
     (case exec re_generic_single msg of
        None \<Rightarrow> Inl TypeError
      | Some m \<Rightarrow>
          (let finding = group m 1;
               line_num = js_minus (to_number (group m 2)) 1;
               here = group m 3
           in Inr (diagnostics @
                [\<lparr>severity = Error,
                  range' = \<lparr>start = \<lparr>line = line_num, character = 0\<rparr>,
                            end' = \<lparr>line = line_num, character = 1000\<rparr>\<rparr>,
                  message = finding,
                  source = ''perl6''\<rparr>])))"

function parse_generics_loop :: "string \<Rightarrow> Diagnostic list \<Rightarrow> js_error + Diagnostic list" where
  "parse_generics_loop text diagnostics =
     (case exec re_generics text of
        None \<Rightarrow> Inr diagnostics
      | Some reea \<Rightarrow>
          (let single = matched reea
           in (case parse_generic_single single diagnostics of
                 Inl e \<Rightarrow> Inl e
               | Inr diagnostics1 \<Rightarrow> parse_generics_loop (drop (length single) text) diagnostics1)))"
  by pat_completeness auto
definition parse_generics :: "string \<Rightarrow> Diagnostic list \<Rightarrow> js_error + Diagnostic list" where
  "parse_generics msg diagnostics =
     (let text = replace_empty re_sorry msg in parse_generics_loop text diagnostics)"

definition parseErrorMessage_server :: "string \<Rightarrow> Diagnostic list \<Rightarrow> js_error + Diagnostic list" where
  "parseErrorMessage_server msg diagnostics =
     (case exec re_missing_libs msg of
        Some m \<Rightarrow> Inr (parse_missing_libs m diagnostics)
      | None \<Rightarrow>
          (let diagnostics1 =
                 (case exec re_undeclared_names msg of
                    Some m \<Rightarrow> parse_undeclared ''name'' (group m 1) diagnostics
                  | None \<Rightarrow> diagnostics)
           in (case exec re_undeclared_routines msg of
                 Some m \<Rightarrow> Inr (parse_undeclared ''routine'' (group m 1) diagnostics1)
               | None \<Rightarrow> parse_generics msg diagnostics1)))"



section \<open>What the claims speak of\<close>

text \<open>
  The diagnostic of one line of an undeclared list, in the words of the specification: a
  line that matches the sub-pattern \<open><identifier> used at line <N><advice>\<close> gives one
  diagnostic, at line \<open>N - 1\<close>, with the message \<open><type> <identifier> is not
  declared<advice>\<close>; any other line gives none.
\<close>

definition line_diagnostic :: "string \<Rightarrow> string \<Rightarrow> Diagnostic list" where
  "line_diagnostic type l =
     (case exec re_used_at l of
        None \<Rightarrow> []
      | Some m2 \<Rightarrow>
          [\<lparr>severity = Error,
            range' = \<lparr>start = \<lparr>line = js_minus (to_number (group m2 2)) 1, character = 0\<rparr>,
                      end' = \<lparr>line = js_minus (to_number (group m2 2)) 1, character = 1000\<rparr>\<rparr>,
            message = type @ '' '' @ group m2 1 @ '' is not declared'' @ group m2 3,
            source = ''perl6''\<rparr>])"


text \<open>
  A generic block, in the words of the specification: the finding, then a line
  \<open>at <file>:<N>\<close>, then a line \<open>------> <context>\<close>.
\<close>

definition generic_block :: "string \<Rightarrow> string \<Rightarrow> string \<Rightarrow> string \<Rightarrow> string" where
  "generic_block finding file n context =
     finding @ [LF] @ ''at '' @ file @ '':'' @ n @ [LF] @ ''------> '' @ context"


text \<open>
  The text with a leading \<open>===SORRY\<close> banner line, if there is one, removed: the words
  of the specification for the message of the fallback diagnostic.
\<close>

definition strip_leading_banner :: "string \<Rightarrow> string" where
  "strip_leading_banner msg =
     (if take 8 msg = ''===SORRY'' then drop 1 (dropWhile (\<lambda>c. c \<noteq> LF) msg) else msg)"


text \<open>The shape every diagnostic of the parser has, whatever the text.\<close>

definition diag_ok :: "Diagnostic \<Rightarrow> bool" where
  "diag_ok d \<longleftrightarrow>
     severity d = Error \<and> source d = ''perl6'' \<and> at_least (- 1) (line (start (range' d))) \<and>
     line (end' (range' d)) = line (start (range' d)) \<and>
     character (start (range' d)) = 0 \<and> character (end' (range' d)) = 1000"


section \<open>Functions of the proofs\<close>

text \<open>
  The least number of characters a regular expression consumes; a regular expression
  with its capture groups erased; the atoms other than \<open>^\<close> and \<open>$\<close>.
\<close>

fun min_len_atom :: "atom \<Rightarrow> nat" where
  "min_len_atom (Lit l) = length l"
| "min_len_atom (Set k) = 1"
| "min_len_atom (Plus k) = 1"
| "min_len_atom (Cap a) = min_len_atom a"
| "min_len_atom a = 0"

definition min_len :: "regex \<Rightarrow> nat" where
  "min_len r = sum_list (map min_len_atom r)"

fun uncap :: "atom \<Rightarrow> atom" where
  "uncap (Cap a) = uncap a"
| "uncap a = a"

fun anchor_free :: "atom \<Rightarrow> bool" where
  "anchor_free Bol = False"
| "anchor_free Eol = False"
| "anchor_free (Cap a) = anchor_free a"
| "anchor_free a = True"


section \<open>Bounds on a match\<close>

text \<open>
  A match consumes at least the characters its literals and \<open>+\<close> quantifiers need, and no
  more than the input has. The loop of \<open>parse_generics\<close> terminates by this.
\<close>

lemma cands_bounds: "k \<in> set (cands a i s) \<Longrightarrow> min_len_atom a \<le> k \<and> k \<le> length s"
proof (induction a arbitrary: k)
  case (Lit l)
  then have "k = length l" "take (length l) s = l" by (auto split: if_splits)
  from arg_cong [OF this(2), of length] this(1) show ?case by simp
next
  case (Star c)
  then show ?case using length_takeWhile_le [of "in_cls c" s] by auto
next
  case (Plus c)
  then show ?case using length_takeWhile_le [of "in_cls c" s] by auto
next
  case (LazyStar c)
  then show ?case using length_takeWhile_le [of "in_cls c" s] by auto
qed (auto split: list.splits if_splits)

lemma match_here_bounds:
  "match_here r i s = Some (caps, n) \<Longrightarrow> min_len r \<le> n \<and> n \<le> length s"
  and try_cands_bounds:
  "try_cands a r i s ks = Some (caps, n) \<Longrightarrow> set ks \<subseteq> set (cands a i s) \<Longrightarrow>
     min_len (a # r) \<le> n \<and> n \<le> length s"
proof (induction r i s and a r i s ks arbitrary: caps n and caps n rule: match_here_try_cands.induct)
  case (1 i s)
  then show ?case by (simp add: min_len_def)
next
  case (2 a r i s)
  then show ?case by simp
next
  case (3 a r i s)
  then show ?case by simp
next
  case (4 a r i s k ks)
  show ?case
  proof (cases "match_here r (i + k) (drop k s)")
    case None
    with 4 show ?thesis by simp
  next
    case (Some p)
    obtain caps' n' where p: "p = (caps', n')" by (cases p)
    from 4(1) [OF Some [unfolded p]] have b: "min_len r \<le> n' \<and> n' \<le> length (drop k s)" .
    from 4(4) have "k \<in> set (cands a i s)" by simp
    from cands_bounds [OF this] have kb: "min_len_atom a \<le> k \<and> k \<le> length s" .
    from 4(3) Some p have "n = k + n'" by simp
    with b kb show ?thesis by (auto simp: min_len_def)
  qed
qed

lemma search_matched:
  "search r i s = Some m \<Longrightarrow> min_len r \<le> length (matched m) \<and> index m - i + length (matched m) \<le> length s \<and> i \<le> index m"
proof (induction r i s rule: search.induct)
  case (1 r i)
  then show ?case using match_here_bounds [of r i "[]"] by (auto split: option.splits)
next
  case (2 r i c s)
  show ?case
  proof (cases "match_here r i (c # s)")
    case None
    with 2 show ?thesis by auto
  next
    case (Some p)
    obtain caps n where p: "p = (caps, n)" by (cases p)
    from match_here_bounds [OF Some [unfolded p]] 2(2) Some p show ?thesis by auto
  qed
qed

lemma exec_matched:
  "exec r s = Some m \<Longrightarrow> min_len r \<le> length (matched m) \<and> index m + length (matched m) \<le> length s"
  using search_matched [of r 0 s m] by (simp add: exec_def)


termination parse_generics_loop
proof (relation "measure (\<lambda>(text, diagnostics). length text)")
  show "wf (measure (\<lambda>(text, diagnostics). length text))" by simp
next
  fix t :: string and diagnostics :: "Diagnostic list" and reea single diagnostics1
  assume e: "exec re_generics t = Some reea" and s: "single = matched reea"
  have "min_len re_generics = 15" by (simp add: min_len_def re_generics_def)
  with exec_matched [OF e] have "15 \<le> length (matched reea)" "length (matched reea) \<le> length t"
    by auto
  then have "length t - length (matched reea) < length t" by arith
  with s show "((drop (length single) t, diagnostics1), (t, diagnostics)) \<in> measure (\<lambda>(text, diagnostics). length text)"
    by simp
qed


section \<open>Facts about the numbers\<close>

text \<open>
  A line number read from the text is never below \<open>-1\<close>, and it is the number of the
  text less one as long as that number is at most \<open>2^53\<close>.
\<close>

lemma decimal_nonneg: "0 \<le> decimal s"
proof -
  have "0 \<le> n \<Longrightarrow> 0 \<le> foldl (\<lambda>n c. 10 * n + digit_val c) n s" for n
    by (induction s arbitrary: n) (auto simp: digit_val_def)
  then show ?thesis by (simp add: decimal_def)
qed

lemma round_to_53_bits_nonneg: "0 \<le> n \<Longrightarrow> 0 \<le> round_to_53_bits n"
  by (simp add: round_to_53_bits_def Let_def pos_imp_zdiv_nonneg_iff)

lemma to_double_nonneg: "0 \<le> z \<Longrightarrow> at_least 0 (to_double z)"
  using round_to_53_bits_nonneg [of z] by (auto simp: to_double_def Let_def)

lemma at_least_mono: "at_least k x \<Longrightarrow> j \<le> k \<Longrightarrow> at_least j x"
  by (cases x) auto

lemma js_minus_one_at_least: "at_least 0 x \<Longrightarrow> at_least (- 1) (js_minus x 1)"
proof (cases x)
  case (Num n)
  assume "at_least 0 x"
  with Num have n: "0 \<le> n" by simp
  show ?thesis
  proof (cases "n = 0")
    case True
    with Num show ?thesis by (simp add: to_double_def)
  next
    case False
    with n have "0 \<le> n - 1" by simp
    from at_least_mono [OF to_double_nonneg [OF this], of "- 1"] Num show ?thesis by simp
  qed
qed simp_all

lemma line_num_at_least [simp]: "at_least (- 1) (js_minus (to_number s) 1)"
  unfolding to_number_def by (intro js_minus_one_at_least to_double_nonneg decimal_nonneg)

lemma round_to_53_bits_2_53: "round_to_53_bits 9007199254740992 = 9007199254740992"
  by code_simp

lemma line_num_exact:
  assumes "decimal s \<le> 9007199254740992"
  shows "js_minus (to_number s) 1 = Num (decimal s - 1)"
proof -
  have d: "0 \<le> decimal s" by (rule decimal_nonneg)
  have "to_number s = Num (decimal s)"
  proof (cases "decimal s = 9007199254740992")
    case True
    have "(9007199254740992::int) < 2 ^ 1024" by simp
    with True show ?thesis
      by (simp add: to_number_def to_double_def round_to_53_bits_2_53)
  next
    case False
    with assms d show ?thesis by (simp add: to_number_def to_double_def)
  qed
  moreover have "to_double (decimal s - 1) = Num (decimal s - 1)"
    using assms d by (simp add: to_double_def)
  ultimately show ?thesis by simp
qed

section \<open>Facts about the loops\<close>

declare parse_generics_loop.simps [simp del]

lemma parse_generics_loop_None:
  "exec re_generics t = None \<Longrightarrow> parse_generics_loop t ds = Inr ds"
  by (subst parse_generics_loop.simps) simp

lemma parse_generics_loop_Some:
  "exec re_generics t = Some m \<Longrightarrow>
   parse_generics_loop t ds =
     (case parse_generic_single (matched m) ds of
        Inl e \<Rightarrow> Inl e
      | Inr ds1 \<Rightarrow> parse_generics_loop (drop (length (matched m)) t) ds1)"
  by (subst parse_generics_loop.simps) (simp add: Let_def)


lemma parseUndeclared_loop_ok:
  "list_all diag_ok ds \<Longrightarrow> list_all diag_ok (parseUndeclared_loop ty ls ds)"
  by (induction ty ls ds rule: parseUndeclared_loop.induct)
     (auto simp: diag_ok_def Let_def split: option.splits)

lemma parseUndeclared_ok:
  "list_all diag_ok ds \<Longrightarrow> list_all diag_ok (parseUndeclared ty s ds)"
  by (simp add: parseUndeclared_def parseUndeclared_loop_ok)

lemma parseMissingLibs_ok:
  "list_all diag_ok ds \<Longrightarrow> list_all diag_ok (parseMissingLibs m ds)"
  by (simp add: parseMissingLibs_def diag_ok_def Let_def)

lemma parseGenerics_ok:
  "list_all diag_ok ds \<Longrightarrow> list_all diag_ok (parseGenerics msg ds)"
  by (auto simp: parseGenerics_def diag_ok_def Let_def split: option.splits)

lemma parseErrorMessage_ok:
  "list_all diag_ok ds \<Longrightarrow> list_all diag_ok (parseErrorMessage msg ds)"
  by (auto simp: parseErrorMessage_def Let_def parseGenerics_ok parseUndeclared_ok parseMissingLibs_ok
      split: option.splits)

lemma parse_undeclared_loop_eq: "parse_undeclared_loop = parseUndeclared_loop"
proof (intro ext)
  fix ty ls ds
  show "parse_undeclared_loop ty ls ds = parseUndeclared_loop ty ls ds"
    by (induction ty ls ds rule: parseUndeclared_loop.induct) (auto split: option.splits)
qed

lemma parse_undeclared_eq: "parse_undeclared = parseUndeclared"
  by (intro ext) (simp add: parse_undeclared_def parseUndeclared_def parse_undeclared_loop_eq)

lemma parse_missing_libs_eq: "parse_missing_libs = parseMissingLibs"
  by (intro ext) (simp add: parse_missing_libs_def parseMissingLibs_def)

lemma parse_generic_single_ok:
  "list_all diag_ok ds \<Longrightarrow> parse_generic_single s ds = Inr ds' \<Longrightarrow> list_all diag_ok ds'"
  by (auto simp: parse_generic_single_def diag_ok_def Let_def split: option.splits)

lemma parse_generics_loop_ok:
  "list_all diag_ok ds \<Longrightarrow> parse_generics_loop t ds = Inr ds' \<Longrightarrow> list_all diag_ok ds'"
proof (induction t ds rule: parse_generics_loop.induct)
  case (1 t ds)
  show ?case
  proof (cases "exec re_generics t")
    case None
    with 1(2,3) show ?thesis by (simp add: parse_generics_loop_None)
  next
    case (Some reea)
    show ?thesis
    proof (cases "parse_generic_single (matched reea) ds")
      case (Inl e)
      with 1(3) Some show ?thesis by (simp add: parse_generics_loop_Some)
    next
      case (Inr ds1)
      from parse_generic_single_ok [OF 1(2) Inr] have "list_all diag_ok ds1" .
      moreover from 1(3) Some Inr
      have "parse_generics_loop (drop (length (matched reea)) t) ds1 = Inr ds'"
        by (simp add: parse_generics_loop_Some)
      ultimately show ?thesis using 1(1) [OF Some refl Inr] by simp
    qed
  qed
qed

lemma parseErrorMessage_server_ok:
  "list_all diag_ok ds \<Longrightarrow> parseErrorMessage_server msg ds = Inr ds' \<Longrightarrow> list_all diag_ok ds'"
  by (auto simp: parseErrorMessage_server_def Let_def parse_generics_def parse_undeclared_eq
        parse_missing_libs_eq parseUndeclared_ok parseMissingLibs_ok
      split: option.splits dest: parse_generics_loop_ok [rotated])

lemma parseUndeclared_loop_append:
  "parseUndeclared_loop ty ls (ds @ es) = ds @ parseUndeclared_loop ty ls es"
  by (induction ls arbitrary: es) (auto simp: Let_def split: option.splits)

lemma parseErrorMessage_append:
  "parseErrorMessage msg (ds @ es) = ds @ parseErrorMessage msg es"
  by (simp add: parseErrorMessage_def parseMissingLibs_def parseUndeclared_def parseGenerics_def
      parseUndeclared_loop_append Let_def split: option.splits prod.splits)

lemma parse_generic_single_append:
  "parse_generic_single s (ds @ es) = map_sum id ((@) ds) (parse_generic_single s es)"
  by (simp add: parse_generic_single_def Let_def split: option.splits)

lemma parse_generics_loop_append:
  "parse_generics_loop t (ds @ es) = map_sum id ((@) ds) (parse_generics_loop t es)"
proof (induction t es rule: parse_generics_loop.induct)
  case (1 t es)
  show ?case
  proof (cases "exec re_generics t")
    case None
    then show ?thesis by (simp add: parse_generics_loop_None)
  next
    case (Some reea)
    show ?thesis
    proof (cases "parse_generic_single (matched reea) es")
      case (Inl e)
      with Some show ?thesis
        by (simp add: parse_generics_loop_Some parse_generic_single_append)
    next
      case (Inr es1)
      with Some 1 [OF Some refl Inr] show ?thesis
        by (simp add: parse_generics_loop_Some parse_generic_single_append)
    qed
  qed
qed

lemma parseErrorMessage_server_append:
  "parseErrorMessage_server msg (ds @ es) = map_sum id ((@) ds) (parseErrorMessage_server msg es)"
  by (simp add: parseErrorMessage_server_def parse_missing_libs_def parse_undeclared_def
      parse_generics_def parse_undeclared_loop_eq
      parseUndeclared_loop_append parse_generics_loop_append Let_def split: option.splits)

lemma parseUndeclared_loop_takeWhile:
  "parseUndeclared_loop ty ls ds =
     ds @ concat (map (line_diagnostic ty) (takeWhile (\<lambda>l. exec re_used_at l \<noteq> None) ls))"
proof (induction ls arbitrary: ds)
  case Nil
  show ?case by simp
next
  case (Cons l ls)
  show ?case
  proof (cases "exec re_used_at l")
    case None
    then show ?thesis by simp
  next
    case (Some m2)
    then show ?thesis by (simp add: Cons.IH line_diagnostic_def Let_def)
  qed
qed

lemma length_line_diagnostics:
  "length (concat (map (line_diagnostic ty) (takeWhile (\<lambda>l. exec re_used_at l \<noteq> None) ls)))
     = length (takeWhile (\<lambda>l. exec re_used_at l \<noteq> None) ls)"
  by (induction ls) (auto simp: line_diagnostic_def)


section \<open>Facts about the matcher\<close>

text \<open>
  How the search goes on a text of known form: a literal is compared, a greedy quantifier
  followed by a character outside its class takes its whole run at the first attempt, a
  lazy one stops at the first length from which the rest matches, and the leftmost start
  wins.
\<close>

lemma try_cands_None:
  "(\<And>k. k \<in> set ks \<Longrightarrow> match_here r (i + k) (drop k s) = None) \<Longrightarrow> try_cands a r i s ks = None"
  by (induction ks) auto

lemma try_cands_skip:
  "(\<And>k. k \<in> set ks1 \<Longrightarrow> match_here r (i + k) (drop k s) = None) \<Longrightarrow>
   try_cands a r i s (ks1 @ ks2) = try_cands a r i s ks2"
  by (induction ks1) auto

lemma takeWhile_run:
  "list_all P u \<Longrightarrow> v = [] \<or> \<not> P (hd v) \<Longrightarrow> takeWhile P (u @ v) = u"
  by (induction u) (cases v; auto)+

lemma upt_split: "m \<le> n \<Longrightarrow> [0 ..< Suc n] = [0 ..< m] @ m # [Suc m ..< Suc n]"
proof -
  assume mn: "m \<le> n"
  then have "[0 ..< Suc n] = [0 ..< m] @ [m ..< Suc n]"
    using upt_add_eq_append [of 0 m "Suc n - m"] by simp
  also from mn have "[m ..< Suc n] = m # [Suc m ..< Suc n]"
    by (simp add: upt_conv_Cons)
  finally show ?thesis .
qed

lemma match_Lit:
  "match_here (Lit l # r) i (l @ s) =
     (case match_here r (i + length l) s of Some (caps, n) \<Rightarrow> Some (caps, length l + n) | None \<Rightarrow> None)"
  by (auto split: option.splits)

lemma match_Lit_fail:
  "take (length l) s \<noteq> l \<Longrightarrow> match_here (Lit l # r) i s = None"
  by simp

lemma match_Opt_absent:
  "s = [] \<or> hd s \<noteq> c \<Longrightarrow> match_here (Opt c # r) i s = match_here r i s"
  by (cases s) (auto split: option.splits)


lemma match_greedy:
  assumes "list_all (in_cls k) u" "v = [] \<or> \<not> in_cls k (hd v)"
    and "match_here r (i + length u) v = Some (caps, n)"
  shows "match_here (Star k # r) i (u @ v) = Some (caps, length u + n)"
    and "match_here (Cap (Star k) # r) i (u @ v) = Some (u # caps, length u + n)"
    and "u \<noteq> [] \<Longrightarrow> match_here (Plus k # r) i (u @ v) = Some (caps, length u + n)"
    and "u \<noteq> [] \<Longrightarrow> match_here (Cap (Plus k) # r) i (u @ v) = Some (u # caps, length u + n)"
proof -
  have tw: "takeWhile (in_cls k) (u @ v) = u" using assms(1,2) by (rule takeWhile_run)
  show "match_here (Star k # r) i (u @ v) = Some (caps, length u + n)"
    and "match_here (Cap (Star k) # r) i (u @ v) = Some (u # caps, length u + n)"
    using assms(3) by (simp_all add: tw)
  assume "u \<noteq> []"
  then have "[1 ..< Suc (length u)] = [1 ..< length u] @ [length u]"
    by (cases u) auto
  then show "match_here (Plus k # r) i (u @ v) = Some (caps, length u + n)"
    and "match_here (Cap (Plus k) # r) i (u @ v) = Some (u # caps, length u + n)"
    using assms(3) by (simp_all add: tw)
qed

lemma match_lazy:
  assumes "list_all (in_cls k) u" 
    and "\<And>j. j < length u \<Longrightarrow> match_here r (i + j) (drop j (u @ v)) = None"
    and "match_here r (i + length u) v = Some (caps, n)"
  shows "match_here (LazyStar k # r) i (u @ v) = Some (caps, length u + n)"
proof -
  have "length u \<le> length (takeWhile (in_cls k) (u @ v))"
    using assms(1) by (induction u) auto
  then have "[0 ..< Suc (length (takeWhile (in_cls k) (u @ v)))] =
      [0 ..< length u] @ length u # [Suc (length u) ..< Suc (length (takeWhile (in_cls k) (u @ v)))]"
    by (rule upt_split)
  then have c: "cands (LazyStar k) i (u @ v) =
      [0 ..< length u] @ length u # [Suc (length u) ..< Suc (length (takeWhile (in_cls k) (u @ v)))]"
    by simp
  show ?thesis
    unfolding match_here.simps c
    by (subst try_cands_skip) (use assms(2,3) in auto)
qed

lemma search_hit:
  "match_here r i s = Some (caps, n) \<Longrightarrow>
   search r i s = Some \<lparr>index = i, matched = take n s, groups = caps\<rparr>"
  by (cases s) auto

lemma search_skip:
  "(\<And>j. j < length p \<Longrightarrow> match_here r (i + j) (drop j (p @ s)) = None) \<Longrightarrow>
   search r i (p @ s) = search r (i + length p) s"
proof (induction p arbitrary: i)
  case Nil
  show ?case by simp
next
  case (Cons c p)
  from Cons.prems [of 0] have h: "match_here r i (c # p @ s) = None" by simp
  have "search r (Suc i) (p @ s) = search r (Suc i + length p) s"
  proof (rule Cons.IH)
    fix j assume "j < length p"
    with Cons.prems [of "Suc j"] show "match_here r (Suc i + j) (drop j (p @ s)) = None" by simp
  qed
  with h show ?case by simp
qed



declare match_here.simps(2) [simp del]

lemma exec_first_match:
  assumes "list_all (\<lambda>j. match_here r j (drop j (p @ s)) = None) [0 ..< length p]"
    and "match_here r (length p) s = Some (caps, n)"
  shows "exec r (p @ s) = Some \<lparr>index = length p, matched = take n s, groups = caps\<rparr>"
proof -
  have "search r 0 (p @ s) = search r (0 + length p) s"
    by (rule search_skip) (use assms(1) in \<open>simp add: list_all_iff\<close>)
  with search_hit [OF assms(2)] show ?thesis by (simp add: exec_def)
qed



lemma match_Opt_present:
  "match_here r (Suc i) s = Some (caps, n) \<Longrightarrow>
   match_here (Opt c # r) i (c # s) = Some (caps, Suc n)"
  by (simp add: match_here.simps(2))

lemma match_undeclared_header:
  assumes s1: "s1 = [] \<or> s1 = ''s''"
    and b: "b = [LF] \<or> b = [CR, LF]"
    and rest: "rest \<noteq> []"
  shows "match_here [Lit h, Opt CHR ''s'', Lit '':'', Opt CR, Lit [LF],
            Cap (Plus (Union Space NonSpace))] i (h @ s1 @ '':'' @ b @ rest)
         = Some ([rest], length h + length s1 + 1 + length b + length rest)"
proof -
  have p: "match_here [Cap (Plus (Union Space NonSpace))] j rest = Some ([rest], length rest)" for j
    using match_greedy(4) [of "Union Space NonSpace" rest "[]" "[]" j "[]" 0] rest
    by (simp add: list_all_iff)
  have l: "match_here [Lit [LF], Cap (Plus (Union Space NonSpace))] j ([LF] @ rest)
      = Some ([rest], 1 + length rest)" for j
    by (subst match_Lit, subst p, simp)
  have o: "match_here [Opt CR, Lit [LF], Cap (Plus (Union Space NonSpace))] j (b @ rest)
      = Some ([rest], length b + length rest)" for j
  proof (cases "b = [LF]")
    case True
    have "match_here [Opt CR, Lit [LF], Cap (Plus (Union Space NonSpace))] j ([LF] @ rest)
        = match_here [Lit [LF], Cap (Plus (Union Space NonSpace))] j ([LF] @ rest)"
      by (rule match_Opt_absent) (simp add: LF_def CR_def)
    with l True show ?thesis by simp
  next
    case False
    with b have b': "b = [CR, LF]" by simp
    have "match_here [Opt CR, Lit [LF], Cap (Plus (Union Space NonSpace))] j (CR # [LF] @ rest)
        = Some ([rest], Suc (1 + length rest))"
      by (rule match_Opt_present) (rule l)
    with b' show ?thesis by simp
  qed
  have c: "match_here [Lit '':'', Opt CR, Lit [LF], Cap (Plus (Union Space NonSpace))] j
        ('':'' @ b @ rest) = Some ([rest], 1 + (length b + length rest))" for j
    by (subst match_Lit, subst o, simp)
  have s: "match_here [Opt CHR ''s'', Lit '':'', Opt CR, Lit [LF], Cap (Plus (Union Space NonSpace))] j
        (s1 @ '':'' @ b @ rest) = Some ([rest], length s1 + (1 + (length b + length rest)))" for j
  proof (cases "s1 = []")
    case True
    have "match_here [Opt CHR ''s'', Lit '':'', Opt CR, Lit [LF], Cap (Plus (Union Space NonSpace))] j
        ('':'' @ b @ rest)
        = match_here [Lit '':'', Opt CR, Lit [LF], Cap (Plus (Union Space NonSpace))] j ('':'' @ b @ rest)"
      by (rule match_Opt_absent) simp
    with c True show ?thesis by simp
  next
    case False
    with s1 have s1': "s1 = ''s''" by simp
    have "match_here [Opt CHR ''s'', Lit '':'', Opt CR, Lit [LF], Cap (Plus (Union Space NonSpace))] j
        (CHR ''s'' # '':'' @ b @ rest) = Some ([rest], Suc (1 + (length b + length rest)))"
      by (rule match_Opt_present) (rule c)
    with s1' show ?thesis by simp
  qed
  show ?thesis by (subst match_Lit, subst s, simp)
qed

text \<open>Erasing the capture groups of a regular expression changes no match, only what is captured.\<close>

lemma cands_uncap: "cands (uncap a) i s = cands a i s"
  by (induction a) auto

lemma match_here_uncap:
  "map_option snd (match_here (map uncap r) i s) = map_option snd (match_here r i s)"
  and try_cands_uncap:
  "map_option snd (try_cands (uncap a) (map uncap r) i s ks) = map_option snd (try_cands a r i s ks)"
proof (induction r i s and a r i s ks rule: match_here_try_cands.induct)
  case (1 i s)
  show ?case by simp
next
  case (2 a r i s)
  then show ?case by (simp add: cands_uncap match_here.simps(2))
next
  case (3 a r i s)
  show ?case by simp
next
  case (4 a r i s k ks)
  show ?case
  proof (cases "match_here r (i + k) (drop k s)")
    case None
    with 4(1) have "match_here (map uncap r) (i + k) (drop k s) = None" by simp
    with None 4(2) show ?thesis by simp
  next
    case (Some p)
    with 4(1) obtain q where q: "match_here (map uncap r) (i + k) (drop k s) = Some q" "snd q = snd p"
      by (cases "match_here (map uncap r) (i + k) (drop k s)") auto
    with Some show ?thesis by (cases p; cases q) simp
  qed
qed

lemma search_uncap:
  "map_option (\<lambda>m. (index m, matched m)) (search (map uncap r) i s) =
   map_option (\<lambda>m. (index m, matched m)) (search r i s)"
proof (induction r i s rule: search.induct)
  case (1 r i)
  from match_here_uncap [of r i "[]"] show ?case
    by (cases "match_here r i []"; cases "match_here (map uncap r) i []") auto
next
  case (2 r i c s)
  from match_here_uncap [of r i "c # s"] 2 show ?case
    by (cases "match_here r i (c # s)"; cases "match_here (map uncap r) i (c # s)") auto
qed

lemma exec_uncap_None: "exec (map uncap r) s = None \<longleftrightarrow> exec r s = None"
  using search_uncap [of r 0 s] unfolding exec_def
  by (cases "search r 0 s"; cases "search (map uncap r) 0 s") auto

lemma re_generics_uncap:
  "re_generics = map uncap re_generic" "re_generics = map uncap re_generic_single"
  by (simp_all add: re_generics_def re_generic_def re_generic_single_def)

lemma exec_re_generics_None: "exec re_generics s = None \<longleftrightarrow> exec re_generic s = None"
  unfolding re_generics_uncap(1) by (rule exec_uncap_None)

text \<open>A line of an undeclared list that matches, and its diagnostic.\<close>

lemma match_Bol: "match_here (Bol # r) 0 s = match_here r 0 s"
  by (cases "match_here r 0 s") (auto simp: match_here.simps(2))

lemma match_Eol: "match_here [Eol] j [] = Some ([], 0)"
  by (simp add: match_here.simps(2))

lemma exec_used_at_entry:
  assumes ws: "ws \<noteq> []" "list_all (in_cls Space) ws"
    and name: "name \<noteq> []" "list_all (in_cls NonSpace) name"
    and N: "N \<noteq> []" "list_all (in_cls Digit) N"
    and advice: "list_all (in_cls Dot) advice" "advice = [] \<or> \<not> in_cls Digit (hd advice)"
  shows "exec re_used_at (ws @ name @ '' used at line '' @ N @ advice) =
     Some \<lparr>index = 0, matched = ws @ name @ '' used at line '' @ N @ advice,
           groups = [name, N, advice]\<rparr>"
proof -
  have a: "match_here [Cap (Star Dot), Eol] j (advice @ []) = Some ([advice], length advice + 0)" for j
    by (rule match_greedy(2) [OF advice(1) _ match_Eol]) simp
  have n: "match_here [Cap (Plus Digit), Cap (Star Dot), Eol] j (N @ advice)
      = Some ([N, advice], length N + length advice)" for j
    using match_greedy(4) [OF N(2) advice(2) _ N(1), of "[Cap (Star Dot), Eol]" j "[advice]" "length advice"]
      a [of "j + length N"] by simp
  have l: "match_here [Lit '' used at line '', Cap (Plus Digit), Cap (Star Dot), Eol] j
      ('' used at line '' @ N @ advice) = Some ([N, advice], 14 + (length N + length advice))" for j
    by (subst match_Lit, subst n, simp)
  have m: "match_here [Cap (Plus NonSpace), Lit '' used at line '', Cap (Plus Digit),
        Cap (Star Dot), Eol] j (name @ '' used at line '' @ N @ advice)
      = Some ([name, N, advice], length name + (14 + (length N + length advice)))" for j
    by (rule match_greedy(4) [OF name(2) _ l name(1)]) (simp add: is_space_def)
  have nm: "\<not> in_cls Space (hd (name @ '' used at line '' @ N @ advice))"
    using name by (cases name) auto
  have w: "match_here [Plus Space, Cap (Plus NonSpace), Lit '' used at line '', Cap (Plus Digit),
        Cap (Star Dot), Eol] 0 (ws @ name @ '' used at line '' @ N @ advice)
      = Some ([name, N, advice], length ws + (length name + (14 + (length N + length advice))))"
    by (rule match_greedy(3) [OF ws(2) _ m ws(1)]) (use nm in simp)
  then have "match_here re_used_at 0 (ws @ name @ '' used at line '' @ N @ advice)
      = Some ([name, N, advice], length ws + (length name + (14 + (length N + length advice))))"
    unfolding re_used_at_def by (subst match_Bol)
  from search_hit [OF this] show ?thesis by (simp add: exec_def)
qed

lemma line_diagnostic_entry:
  assumes "ws \<noteq> []" "list_all (in_cls Space) ws"
    and "name \<noteq> []" "list_all (in_cls NonSpace) name"
    and "N \<noteq> []" "list_all (in_cls Digit) N"
    and "list_all (in_cls Dot) advice" "advice = [] \<or> \<not> in_cls Digit (hd advice)"
  shows "line_diagnostic type (ws @ name @ '' used at line '' @ N @ advice) =
     [\<lparr>severity = Error,
       range' = \<lparr>start = \<lparr>line = js_minus (to_number N) 1, character = 0\<rparr>,
                 end' = \<lparr>line = js_minus (to_number N) 1, character = 1000\<rparr>\<rparr>,
       message = type @ '' '' @ name @ '' is not declared'' @ advice,
       source = ''perl6''\<rparr>]"
  unfolding line_diagnostic_def exec_used_at_entry [OF assms]
  by (simp add: group_def)

text \<open>The banner and the generic blocks.\<close>

lemma replace_empty_no_match: "exec r s = None \<Longrightarrow> replace_empty r s = s"
  by (simp add: replace_empty_def)

lemma drop_length_append: "n = length u \<Longrightarrow> drop n (u @ v) = v"
  by simp

lemma replace_sorry_leading_banner:
  assumes "msg = ''===SORRY'' @ l @ b @ rest"
    and "list_all (in_cls Dot) l" and "b = [LF] \<or> b = [CR, LF]"
  shows "replace_empty re_sorry msg = rest" and "strip_leading_banner msg = rest"
proof -
  have hd: "\<not> in_cls Dot (hd (b @ rest))" using assms(3) by auto
  have nl: "match_here [Opt CR, Lit [LF]] j (b @ rest) = Some ([], length b)" for j
  proof (cases "b = [LF]")
    case True
    have "match_here [Opt CR, Lit [LF]] j ([LF] @ rest) = match_here [Lit [LF]] j ([LF] @ rest)"
      by (rule match_Opt_absent) (simp add: LF_def CR_def)
    also have "\<dots> = Some ([], 1)" by (subst match_Lit) simp
    finally show ?thesis using True by simp
  next
    case False
    with assms(3) have b: "b = [CR, LF]" by simp
    have "match_here [Lit [LF]] (Suc j) ([LF] @ rest) = Some ([], 1)" by (subst match_Lit) simp
    then have "match_here [Opt CR, Lit [LF]] j (CR # [LF] @ rest) = Some ([], Suc 1)"
      by (rule match_Opt_present)
    with b show ?thesis by simp
  qed
  have "match_here [Star Dot, Opt CR, Lit [LF]] j (l @ b @ rest) = Some ([], length l + length b)" for j
    by (rule match_greedy(1) [OF assms(2) _ nl]) (use hd in simp)
  then have "match_here re_sorry 0 (''===SORRY'' @ l @ b @ rest) = Some ([], 8 + (length l + length b))"
    unfolding re_sorry_def by (subst match_Lit) simp
  from search_hit [OF this]
  have e: "exec re_sorry (''===SORRY'' @ l @ b @ rest) =
      Some \<lparr>index = 0, matched = take (8 + (length l + length b)) (''===SORRY'' @ l @ b @ rest),
        groups = []\<rparr>"
    unfolding exec_def .
  have "drop (8 + (length l + length b)) ((''===SORRY'' @ l @ b) @ rest) = rest"
    by (rule drop_length_append) simp
  then show "replace_empty re_sorry msg = rest"
    unfolding assms(1) replace_empty_def e by simp
  have "dropWhile (\<lambda>c. c \<noteq> LF) (l @ b @ rest) = dropWhile (\<lambda>c. c \<noteq> LF) (b @ rest)"
    using assms(2) by (induction l) auto
  also have "drop 1 \<dots> = rest" using assms(3) by (auto simp: CR_def LF_def)
  finally show "strip_leading_banner msg = rest"
    unfolding assms(1) by (simp add: strip_leading_banner_def LF_def)
qed


lemma match_line_break_fail:
  "s \<noteq> [] \<Longrightarrow> in_cls Dot (hd s) \<Longrightarrow> match_here (Opt CR # Lit [LF] # r) j s = None"
  by (cases s) (auto simp: match_here.simps(2))

lemma length_takeWhile_append_le:
  "y \<noteq> [] \<Longrightarrow> \<not> P (hd y) \<Longrightarrow> length (takeWhile P (g @ y)) \<le> length g"
  by (induction g) (auto simp: takeWhile_eq_Nil_iff neq_Nil_conv)

lemma match_digits_fail:
  assumes g: "list_all (in_cls Dot) g"
    and y: "y \<noteq> []" "\<not> in_cls Digit (hd y)"
    and r: "\<And>j. match_here (Opt CR # Lit [LF] # r) j y = None"
  shows "match_here (Cap (Plus Digit) # Opt CR # Lit [LF] # r) j (g @ y) = None"
  unfolding match_here.simps(2)
proof (rule try_cands_None)
  fix k assume "k \<in> set (cands (Cap (Plus Digit)) j (g @ y))"
  then have "k \<le> length (takeWhile (in_cls Digit) (g @ y))" by auto
  with length_takeWhile_append_le [of y "in_cls Digit" g] y have k: "k \<le> length g" by simp
  show "match_here (Opt CR # Lit [LF] # r) (j + k) (drop k (g @ y)) = None"
  proof (cases "k = length g")
    case True
    then show ?thesis by (simp add: r)
  next
    case False
    with k have lt: "k < length g" by simp
    then have "drop k g \<noteq> []" by simp
    moreover from g lt have "in_cls Dot (hd (drop k g))"
      by (simp add: hd_drop_conv_nth list_all_length)
    ultimately show ?thesis using lt by (simp add: match_line_break_fail)
  qed
qed

lemma match_colon_fail:
  assumes g: "list_all (in_cls Dot) g"
    and y: "y \<noteq> []" "\<not> in_cls Digit (hd y)"
    and r: "\<And>j. match_here (Opt CR # Lit [LF] # r) j y = None"
    and e: "g = [] \<Longrightarrow> hd y \<noteq> CHR '':''"
  shows "match_here (Lit '':'' # Cap (Plus Digit) # Opt CR # Lit [LF] # r) j (g @ y) = None"
proof (cases g)
  case Nil
  with e y(1) show ?thesis by (cases y) (auto intro: match_Lit_fail)
next
  case (Cons c g')
  show ?thesis
  proof (cases "c = CHR '':''")
    case False
    with Cons show ?thesis by (auto intro: match_Lit_fail)
  next
    case True
    from g Cons have "list_all (in_cls Dot) g'" by simp
    from match_digits_fail [OF this y r]
    have "match_here (Cap (Plus Digit) # Opt CR # Lit [LF] # r) (j + length '':'') (g' @ y) = None" .
    then have "match_here (Lit '':'' # Cap (Plus Digit) # Opt CR # Lit [LF] # r) j ('':'' @ g' @ y) = None"
      by (subst match_Lit) simp
    with True Cons show ?thesis by simp
  qed
qed

lemma match_generic_block:
  assumes F: "list_all (in_cls Dot) F" and f: "list_all (in_cls Dot) f"
    and N: "N \<noteq> []" "list_all (in_cls Digit) N"
    and rest: "rest = [] \<or> \<not> in_cls Dot (hd rest)"
    and a: "\<And>j. match_here [a] j (C @ rest) = Some (cs, length C)"
  shows "match_here [Cap (Star Dot), Opt CR, Lit [LF], Lit ''at '', LazyStar Dot, Lit '':'',
           Cap (Plus Digit), Opt CR, Lit [LF], Lit ''------> '', a] i (generic_block F f N C @ rest)
         = Some (F # N # cs, length (generic_block F f N C))"
proof -
  let ?T3 = "[LF] @ ''------> '' @ C @ rest"
  let ?R3 = "[Lit ''------> '', a]"
  have s3a: "match_here (Lit [LF] # ?R3) j ?T3 = Some (cs, 1 + (8 + length C))" for j
    by (subst match_Lit, subst match_Lit, subst a, simp)
  have s3: "match_here (Opt CR # Lit [LF] # ?R3) j ?T3 = Some (cs, 1 + (8 + length C))" for j
    using s3a [of j] by (subst match_Opt_absent) (simp_all add: LF_def CR_def)
  have s2: "match_here (Cap (Plus Digit) # Opt CR # Lit [LF] # ?R3) j (N @ ?T3)
      = Some (N # cs, length N + (1 + (8 + length C)))" for j
    by (rule match_greedy(4) [OF N(2) _ s3 N(1)]) (simp add: LF_def)
  let ?T2 = "'':'' @ N @ ?T3"
  let ?R2 = "Lit '':'' # Cap (Plus Digit) # Opt CR # Lit [LF] # ?R3"
  have s2c: "match_here ?R2 j ?T2 = Some (N # cs, 1 + (length N + (1 + (8 + length C))))" for j
    by (subst match_Lit, subst s2, simp)
  have s1: "match_here (LazyStar Dot # ?R2) j (f @ ?T2)
      = Some (N # cs, length f + (1 + (length N + (1 + (8 + length C)))))" for j
  proof (rule match_lazy [OF f _ s2c])
    fix k assume k: "k < length f"
    have "match_here ?R2 (j + k) (drop k f @ ?T2) = None"
    proof (rule match_colon_fail)
      show "list_all (in_cls Dot) (drop k f)"
        using f by (auto simp: list_all_iff dest: in_set_dropD)
      show "?T2 \<noteq> []" by simp
      show "\<not> in_cls Digit (hd ?T2)" by simp
      show "match_here (Opt CR # Lit [LF] # ?R3) j' ?T2 = None" for j'
        by (rule match_line_break_fail) (simp_all add: LF_def CR_def)
      show "drop k f = [] \<Longrightarrow> hd ?T2 \<noteq> CHR '':''" using k by simp
    qed
    with k show "match_here ?R2 (j + k) (drop k (f @ ?T2)) = None" by simp
  qed
  let ?T1 = "[LF] @ ''at '' @ f @ ?T2"
  let ?R1 = "Lit ''at '' # LazyStar Dot # ?R2"
  have s1a: "match_here (Lit [LF] # ?R1) j ?T1
      = Some (N # cs, 1 + (3 + (length f + (1 + (length N + (1 + (8 + length C)))))))" for j
    by (subst match_Lit, subst match_Lit, subst s1, simp)
  have s1b: "match_here (Opt CR # Lit [LF] # ?R1) j ?T1
      = Some (N # cs, 1 + (3 + (length f + (1 + (length N + (1 + (8 + length C)))))))" for j
    using s1a [of j] by (subst match_Opt_absent) (simp_all add: LF_def CR_def)
  have s0: "match_here (Cap (Star Dot) # Opt CR # Lit [LF] # ?R1) i (F @ ?T1)
      = Some (F # N # cs, length F + (1 + (3 + (length f + (1 + (length N + (1 + (8 + length C))))))))"
    by (rule match_greedy(2) [OF F _ s1b]) (simp add: LF_def CR_def)
  have eq: "generic_block F f N C @ rest = F @ ?T1" by (simp add: generic_block_def)
  have len: "length (generic_block F f N C)
      = length F + (1 + (3 + (length f + (1 + (length N + (1 + (8 + length C)))))))"
    by (simp add: generic_block_def)
  show ?thesis unfolding eq len using s0 by simp
qed

lemma match_last_Star:
  assumes "list_all (in_cls Dot) C" "rest = [] \<or> \<not> in_cls Dot (hd rest)"
  shows "match_here [Cap (Star Dot)] j (C @ rest) = Some ([C], length C)"
    and "match_here [Star Dot] j (C @ rest) = Some ([], length C)"
  using match_greedy(1,2) [OF assms, of "[]" j "[]" 0] by simp_all

lemma at_prefix:
  assumes "take (length ''at '') (F @ [LF] @ T) = ''at ''"
  obtains F' where "F = ''at '' @ F'"
proof (cases F)
  case Nil
  with assms show ?thesis by (simp add: LF_def)
next
  case c1: (Cons c1 F1)
  show ?thesis
  proof (cases F1)
    case Nil
    with c1 assms show ?thesis by (simp add: LF_def)
  next
    case c2: (Cons c2 F2)
    show ?thesis
    proof (cases F2)
      case Nil
      with c1 c2 assms show ?thesis by (simp add: LF_def)
    next
      case (Cons c3 F3)
      with c1 c2 assms have "F = ''at '' @ F3" by simp
      then show ?thesis by (rule that)
    qed
  qed
qed

lemma match_after_at_fail:
  assumes g: "list_all (in_cls Dot) g"
  shows "match_here (LazyStar Dot # Lit '':'' # Cap (Plus Digit) # Opt CR # Lit [LF] #
            [Lit ''------> '', a]) j (g @ [LF] @ ''at '' @ x) = None"
  unfolding match_here.simps(2)
proof (rule try_cands_None)
  let ?Y = "[LF] @ ''at '' @ x"
  fix k assume "k \<in> set (cands (LazyStar Dot) j (g @ ?Y))"
  moreover have "takeWhile (in_cls Dot) (g @ ?Y) = g"
    by (rule takeWhile_run [OF g]) simp
  ultimately have k: "k \<le> length g" by auto
  have "match_here (Lit '':'' # Cap (Plus Digit) # Opt CR # Lit [LF] # [Lit ''------> '', a])
      (j + k) (drop k g @ ?Y) = None"
  proof (rule match_colon_fail)
    show "list_all (in_cls Dot) (drop k g)"
      using g by (auto simp: list_all_iff dest: in_set_dropD)
    show "?Y \<noteq> []" by simp
    show "\<not> in_cls Digit (hd ?Y)" by (simp add: LF_def)
    show "match_here (Opt CR # Lit [LF] # [Lit ''------> '', a]) j' ?Y = None" for j'
    proof -
      have "match_here [Lit ''------> '', a] (j' + length [LF]) (''at '' @ x) = None"
        by (rule match_Lit_fail) simp
      then have "match_here (Lit [LF] # [Lit ''------> '', a]) j' ?Y = None"
        by (subst match_Lit) simp
      then show ?thesis by (subst match_Opt_absent) (simp_all add: LF_def CR_def)
    qed
    show "hd ?Y \<noteq> CHR '':''" by (simp add: LF_def)
  qed
  with k show "match_here (Lit '':'' # Cap (Plus Digit) # Opt CR # Lit [LF] # [Lit ''------> '', a])
      (j + k) (drop k (g @ ?Y)) = None" by simp
qed

lemma match_before_block_fail:
  assumes F: "list_all (in_cls Dot) F"
  shows "match_here [Cap (Star Dot), Opt CR, Lit [LF], Lit ''at '', LazyStar Dot, Lit '':'',
           Cap (Plus Digit), Opt CR, Lit [LF], Lit ''------> '', a] j
           ([LF] @ generic_block F f N C @ rest) = None"
proof -
  let ?R2 = "LazyStar Dot # Lit '':'' # Cap (Plus Digit) # Opt CR # Lit [LF] # [Lit ''------> '', a]"
  let ?T = "f @ '':'' @ N @ [LF] @ ''------> '' @ C @ rest"
  let ?X = "F @ [LF] @ ''at '' @ ?T"
  have x: "match_here (Lit ''at '' # ?R2) j' ?X = None" for j'
  proof (cases "take (length ''at '') ?X = ''at ''")
    case False
    then show ?thesis by (rule match_Lit_fail)
  next
    case True
    then obtain F' where F': "F = ''at '' @ F'" by (rule at_prefix)
    with F have "list_all (in_cls Dot) F'" by simp
    then have "match_here ?R2 (j' + length ''at '') (F' @ [LF] @ ''at '' @ ?T) = None"
      by (rule match_after_at_fail)
    then have "match_here (Lit ''at '' # ?R2) j' (''at '' @ F' @ [LF] @ ''at '' @ ?T) = None"
      by (subst match_Lit) simp
    then show ?thesis unfolding F' by simp
  qed
  have "match_here (Lit [LF] # Lit ''at '' # ?R2) j' ([LF] @ ?X) = None" for j'
    by (subst match_Lit, subst x, simp)
  then have o: "match_here (Opt CR # Lit [LF] # Lit ''at '' # ?R2) j' ([LF] @ ?X) = None" for j'
    by (subst match_Opt_absent) (simp_all add: LF_def CR_def)
  have c: "cands (Cap (Star Dot)) j ([LF] @ ?X) = [0]" by (simp add: LF_def)
  have eq: "[LF] @ generic_block F f N C @ rest = [LF] @ ?X" by (simp add: generic_block_def)
  show ?thesis
    unfolding eq match_here.simps(2) [of "Cap (Star Dot)"] c using o [of j] by simp
qed

lemma exec_generic_block:
  assumes "list_all (in_cls Dot) F" "list_all (in_cls Dot) f"
    and "N \<noteq> []" "list_all (in_cls Digit) N" and C: "list_all (in_cls Dot) C"
    and rest: "rest = [] \<or> \<not> in_cls Dot (hd rest)"
  shows "exec re_generic_single (generic_block F f N C @ rest) =
           Some \<lparr>index = 0, matched = generic_block F f N C, groups = [F, N, C]\<rparr>"
    and "exec re_generic (generic_block F f N C @ rest) =
           Some \<lparr>index = 0, matched = generic_block F f N C, groups = [F, N]\<rparr>"
proof -
  from match_generic_block [OF assms(1-4) rest match_last_Star(1) [OF C rest], of 0]
  have "match_here re_generic_single 0 (generic_block F f N C @ rest) =
      Some ([F, N, C], length (generic_block F f N C))"
    by (simp add: re_generic_single_def)
  from search_hit [OF this]
  show "exec re_generic_single (generic_block F f N C @ rest) =
           Some \<lparr>index = 0, matched = generic_block F f N C, groups = [F, N, C]\<rparr>"
    by (simp add: exec_def)
  from match_generic_block [OF assms(1-4) rest match_last_Star(2) [OF C rest], of 0]
  have "match_here re_generic 0 (generic_block F f N C @ rest) =
      Some ([F, N], length (generic_block F f N C))"
    by (simp add: re_generic_def)
  from search_hit [OF this]
  show "exec re_generic (generic_block F f N C @ rest) =
           Some \<lparr>index = 0, matched = generic_block F f N C, groups = [F, N]\<rparr>"
    by (simp add: exec_def)
qed

lemma exec_generic_block_after_line_feed:
  assumes "list_all (in_cls Dot) F" "list_all (in_cls Dot) f"
    and "N \<noteq> []" "list_all (in_cls Digit) N" and C: "list_all (in_cls Dot) C"
    and rest: "rest = [] \<or> \<not> in_cls Dot (hd rest)"
  shows "exec re_generic_single ([LF] @ generic_block F f N C @ rest) =
           Some \<lparr>index = 1, matched = generic_block F f N C, groups = [F, N, C]\<rparr>"
proof -
  have "search re_generic_single 0 ([LF] @ generic_block F f N C @ rest) =
      search re_generic_single (0 + length [LF]) (generic_block F f N C @ rest)"
  proof (rule search_skip)
    fix j assume "j < length [LF]"
    then have "j = 0" by simp
    then show "match_here re_generic_single (0 + j)
        (drop j ([LF] @ generic_block F f N C @ rest)) = None"
      using match_before_block_fail [OF assms(1), of "Cap (Star Dot)" 0 f N C rest]
      by (simp add: re_generic_single_def)
  qed
  moreover
  from match_generic_block [OF assms(1-4) rest match_last_Star(1) [OF C rest], of 1]
  have "match_here re_generic_single 1 (generic_block F f N C @ rest) =
      Some ([F, N, C], length (generic_block F f N C))"
    by (simp add: re_generic_single_def)
  from search_hit [OF this]
  have "search re_generic_single 1 (generic_block F f N C @ rest) =
      Some \<lparr>index = 1, matched = generic_block F f N C, groups = [F, N, C]\<rparr>"
    by simp
  ultimately show ?thesis by (simp add: exec_def)
qed

lemma exec_generics_of_single:
  assumes "exec re_generic_single s = Some m"
  obtains m' where "exec re_generics s = Some m'" "index m' = index m" "matched m' = matched m"
proof -
  from search_uncap [of re_generic_single 0 s] assms
  have "map_option (\<lambda>m. (index m, matched m)) (exec re_generics s) = Some (index m, matched m)"
    by (simp add: exec_def re_generics_uncap(2))
  then obtain m' where "exec re_generics s = Some m'" "index m' = index m" "matched m' = matched m"
    by auto
  then show ?thesis by (rule that)
qed

lemma exec_generics_short: "length s < 15 \<Longrightarrow> exec re_generics s = None"
proof (rule ccontr)
  assume l: "length s < 15" and "exec re_generics s \<noteq> None"
  then obtain m where "exec re_generics s = Some m" by auto
  from exec_matched [OF this] have "min_len re_generics \<le> length s" by simp
  moreover have "min_len re_generics = 15" by (simp add: min_len_def re_generics_def)
  ultimately show False using l by simp
qed

lemma parse_generic_single_block:
  assumes "list_all (in_cls Dot) F" "list_all (in_cls Dot) f"
    and "N \<noteq> []" "list_all (in_cls Digit) N" and "list_all (in_cls Dot) C"
  shows "parse_generic_single (generic_block F f N C) ds =
     Inr (ds @ [\<lparr>severity = Error,
                 range' = \<lparr>start = \<lparr>line = js_minus (to_number N) 1, character = 0\<rparr>,
                           end' = \<lparr>line = js_minus (to_number N) 1, character = 1000\<rparr>\<rparr>,
                 message = F,
                 source = ''perl6''\<rparr>])"
  using exec_generic_block(1) [OF assms, of "[]"]
  by (simp add: parse_generic_single_def group_def Let_def)

section \<open>The parser of \<open>server.ts\<close> never raises\<close>

text \<open>
  A regular expression without \<open>^\<close> and \<open>$\<close> matches a text cut after the match as it
  matches the text: the candidates of a quantifier on the shorter text are those of the
  longer one that fit. So the pattern with groups matches what the pattern of the loop
  has matched, \<open>m\<close> is never \<open>null\<close> in \<open>parse_generic_single\<close>, and the parser returns
  a batch for every text.
\<close>

lemma length_takeWhile_take:
  "length (takeWhile P (take m s)) = min m (length (takeWhile P s))"
proof (induction s arbitrary: m)
  case Nil
  show ?case by simp
next
  case (Cons c s)
  then show ?case by (cases m) auto
qed

lemma filter_le_upt:
  "filter (\<lambda>j. j \<le> m) [0 ..< Suc n] = [0 ..< Suc (min m n)]"
  "filter (\<lambda>j. j \<le> m) [Suc 0 ..< Suc n] = [Suc 0 ..< Suc (min m n)]"
  by (induction n) (auto simp: min_def)

lemma cands_take:
  "anchor_free a \<Longrightarrow> cands a i' (take m s) = filter (\<lambda>k. k \<le> m) (cands a i s)"
proof (induction a)
  case (Lit l)
  show ?case
  proof (cases "length l \<le> m")
    case True
    then show ?thesis by (simp add: min_def)
  next
    case False
    then have "length (take (length l) (take m s)) \<noteq> length l" by simp
    then have "take (length l) (take m s) \<noteq> l" by metis
    with False show ?thesis by simp
  qed
next
  case (Set k)
  then show ?case by (cases s; cases m) auto
next
  case (Opt c)
  then show ?case by (cases s; cases m) auto
next
  case (Star k)
  show ?case by (simp add: length_takeWhile_take rev_filter [symmetric] filter_le_upt del: upt_Suc)
next
  case (Plus k)
  show ?case by (simp add: length_takeWhile_take rev_filter [symmetric] filter_le_upt del: upt_Suc)
next
  case (LazyStar k)
  show ?case by (simp add: length_takeWhile_take filter_le_upt del: upt_Suc)
qed simp_all

lemma try_cands_take:
  assumes A: "\<And>i i' s m caps n. match_here r i s = Some (caps, n) \<Longrightarrow> n \<le> m \<Longrightarrow>
      match_here r i' (take m s) = Some (caps, n)"
    and B: "\<And>i i' s m. match_here r i' (take m s) \<noteq> None \<Longrightarrow> match_here r i s \<noteq> None"
  shows "try_cands a r i s ks = Some (caps, n) \<Longrightarrow> n \<le> m \<Longrightarrow>
      try_cands a r i' (take m s) (filter (\<lambda>k. k \<le> m) ks) = Some (caps, n)"
    and "try_cands a r i' (take m s) (filter (\<lambda>k. k \<le> m) ks) \<noteq> None \<Longrightarrow>
      try_cands a r i s ks \<noteq> None"
proof (induction ks)
  case Nil
  { case 1 then show ?case by simp }
  { case 2 then show ?case by simp }
next
  case (Cons k ks)
  have dt: "drop k (take m s) = take (m - k) (drop k s)" by (simp add: drop_take)
  {
    case 1
    show ?case
    proof (cases "match_here r (i + k) (drop k s)")
      case None
      with 1 have t: "try_cands a r i s ks = Some (caps, n)" by simp
      have "match_here r (i' + k) (take (m - k) (drop k s)) = None"
        using B [of "i' + k" "m - k" "drop k s" "i + k"] None
        by (cases "match_here r (i' + k) (take (m - k) (drop k s))") simp_all
      with Cons.IH(1) [OF t 1(2)] show ?thesis by (simp add: dt)
    next
      case (Some p)
      obtain c0 n0 where p: "p = (c0, n0)" by (cases p)
      with Some 1 have e: "caps = (if is_cap a then take k s # c0 else c0)" "n = k + n0" by auto
      with 1(2) have "k \<le> m" "n0 \<le> m - k" by auto
      moreover from A [OF Some [unfolded p] \<open>n0 \<le> m - k\<close>, of "i' + k"]
      have "match_here r (i' + k) (take (m - k) (drop k s)) = Some (c0, n0)" .
      ultimately show ?thesis using e by (simp add: dt min_def)
    qed
  }
  {
    case 2
    show ?case
    proof (cases "k \<le> m")
      case False
      with 2 have "try_cands a r i' (take m s) (filter (\<lambda>k. k \<le> m) ks) \<noteq> None" by simp
      from Cons.IH(2) [OF this] show ?thesis by (auto split: option.splits)
    next
      case True
      show ?thesis
      proof (cases "match_here r (i' + k) (take (m - k) (drop k s))")
        case None
        with 2 True have "try_cands a r i' (take m s) (filter (\<lambda>k. k \<le> m) ks) \<noteq> None"
          by (simp add: dt)
        from Cons.IH(2) [OF this] show ?thesis by (auto split: option.splits)
      next
        case (Some p)
        then have "match_here r (i + k) (drop k s) \<noteq> None"
          using B [of "i' + k" "m - k" "drop k s" "i + k"] by simp
        then show ?thesis by (auto split: option.splits)
      qed
    qed
  }
qed

lemma match_here_take:
  assumes "list_all anchor_free r"
  shows "match_here r i s = Some (caps, n) \<Longrightarrow> n \<le> m \<Longrightarrow>
      match_here r i' (take m s) = Some (caps, n)"
    and "match_here r i' (take m s) \<noteq> None \<Longrightarrow> match_here r i s \<noteq> None"
  using assms
proof (induction r arbitrary: i i' s m caps n)
  case Nil
  { case 1 then show ?case by simp }
  { case 2 then show ?case by simp }
next
  case (Cons a r)
  {
    case 1
    then have af: "anchor_free a" "list_all anchor_free r" by simp_all
    from 1(1) have "try_cands a r i s (cands a i s) = Some (caps, n)"
      by (simp add: match_here.simps(2))
    from try_cands_take(1) [OF Cons.IH(1) Cons.IH(2), OF _ _ af(2) _ af(2) this 1(2)]
    show ?case by (simp add: match_here.simps(2) cands_take [OF af(1), of i' m s i])
  }
  {
    case 2
    then have af: "anchor_free a" "list_all anchor_free r" by simp_all
    from 2(1) have "try_cands a r i' (take m s) (filter (\<lambda>k. k \<le> m) (cands a i s)) \<noteq> None"
      by (simp add: match_here.simps(2) cands_take [OF af(1), of i' m s i])
    from try_cands_take(2) [OF Cons.IH(1) Cons.IH(2), OF _ _ af(2) _ af(2) this]
    show ?case by (simp add: match_here.simps(2))
  }
qed

lemma search_Some:
  "search r i s = Some m \<Longrightarrow>
   \<exists>caps n t. match_here r (index m) t = Some (caps, n) \<and> matched m = take n t"
proof (induction r i s rule: search.induct)
  case (1 r i)
  then obtain caps n where "match_here r i [] = Some (caps, n)" "index m = i" "matched m = take n []"
    by (auto split: option.splits)
  then show ?case by blast
next
  case (2 r i c s)
  show ?case
  proof (cases "match_here r i (c # s)")
    case None
    with 2 show ?thesis by simp
  next
    case (Some p)
    obtain caps n where "p = (caps, n)" by (cases p)
    with Some 2(2) have "match_here r (index m) (c # s) = Some (caps, n)"
      "matched m = take n (c # s)" by auto
    then show ?thesis by blast
  qed
qed

lemma exec_generic_single_matched:
  assumes "exec re_generics t = Some m"
  shows "exec re_generic_single (matched m) \<noteq> None"
proof -
  from search_Some [OF assms [unfolded exec_def]]
  obtain caps n u where u: "match_here re_generics (index m) u = Some (caps, n)"
    and mm: "matched m = take n u" by blast
  from match_here_uncap [of re_generic_single "index m" u] u
  obtain caps' where "match_here re_generic_single (index m) u = Some (caps', n)"
    by (cases "match_here re_generic_single (index m) u") (auto simp: re_generics_uncap(2))
  moreover have "list_all anchor_free re_generic_single"
    by (simp add: re_generic_single_def)
  ultimately have "match_here re_generic_single 0 (take n u) = Some (caps', n)"
    using match_here_take(1) [of re_generic_single "index m" u caps' n n 0] by simp
  from search_hit [OF this] show ?thesis by (simp add: exec_def mm)
qed

lemma parse_generics_loop_returns: "\<exists>ds'. parse_generics_loop t ds = Inr ds'"
proof (induction t ds rule: parse_generics_loop.induct)
  case (1 t ds)
  show ?case
  proof (cases "exec re_generics t")
    case None
    then show ?thesis by (simp add: parse_generics_loop_None)
  next
    case (Some reea)
    from exec_generic_single_matched [OF Some]
    obtain ds1 where p: "parse_generic_single (matched reea) ds = Inr ds1"
      by (auto simp: parse_generic_single_def Let_def)
    from 1 [OF Some refl p] Some p show ?thesis
      by (simp add: parse_generics_loop_Some)
  qed
qed

lemma parseErrorMessage_server_returns: "\<exists>ds'. parseErrorMessage_server msg ds = Inr ds'"
  using parse_generics_loop_returns
  by (simp add: parseErrorMessage_server_def parse_generics_def Let_def split: option.splits)

section \<open>The claims\<close>

text \<open>
  C7. For the generic block \<open>Variable '$x' is not declared\<close>, \<open>at /tmp/f.p6:12\<close>,
  \<open>------> my $y = $x;\<close> the extractor produces exactly one diagnostic, at line 11, whose
  message is the finding \<open>Variable '$x' is not declared\<close>: the text after \<open>------>\<close> is
  not part of it. Both parsers of the repository do so.
\<close>

theorem generic_block_example:
  "parseErrorMessage
     (''Variable '' @ [CHR 0x27] @ ''$x'' @ [CHR 0x27] @
      '' is not declared\<newline>at /tmp/f.p6:12\<newline>------> my $y = $x;'') []
   = [\<lparr>severity = Error,
       range' = \<lparr>start = \<lparr>line = Num 11, character = 0\<rparr>, end' = \<lparr>line = Num 11, character = 1000\<rparr>\<rparr>,
       message = ''Variable '' @ [CHR 0x27] @ ''$x'' @ [CHR 0x27] @ '' is not declared'',
       source = ''perl6''\<rparr>]
   \<and> parseErrorMessage_server
     (''Variable '' @ [CHR 0x27] @ ''$x'' @ [CHR 0x27] @
      '' is not declared\<newline>at /tmp/f.p6:12\<newline>------> my $y = $x;'') []
   = Inr [\<lparr>severity = Error,
       range' = \<lparr>start = \<lparr>line = Num 11, character = 0\<rparr>, end' = \<lparr>line = Num 11, character = 1000\<rparr>\<rparr>,
       message = ''Variable '' @ [CHR 0x27] @ ''$x'' @ [CHR 0x27] @ '' is not declared'',
       source = ''perl6''\<rparr>]"
  by code_simp

text \<open>
  C1. For the text \<open>Undeclared names:\<close>, \<open>  foo used at line 5\<close>,
  \<open>  bar used at line 9 (did you mean 'baz'?)\<close> (each line ended by a line feed) the claim
  is a batch of exactly two diagnostics. \<open>parseErrorMessage\<close> of \<open>server.ts\<close> returns
  them; \<open>parseErrorMessage\<close> of \<open>client/package.json\<close> does not return after the
  names and, no routine being reported, goes on to \<open>parseGenerics\<close>, which always
  pushes: a third diagnostic, at line 0, repeats the whole text.
\<close>

theorem undeclared_names_example:
  "parseErrorMessage
     (''Undeclared names:\<newline>  foo used at line 5\<newline>  bar used at line 9 (did you mean '' @
      [CHR 0x27] @ ''baz'' @ [CHR 0x27] @ ''?)\<newline>'') []
   = [\<lparr>severity = Error,
       range' = \<lparr>start = \<lparr>line = Num 4, character = 0\<rparr>, end' = \<lparr>line = Num 4, character = 1000\<rparr>\<rparr>,
       message = ''name foo is not declared'',
       source = ''perl6''\<rparr>,
      \<lparr>severity = Error,
       range' = \<lparr>start = \<lparr>line = Num 8, character = 0\<rparr>, end' = \<lparr>line = Num 8, character = 1000\<rparr>\<rparr>,
       message = ''name bar is not declared (did you mean '' @ [CHR 0x27] @ ''baz'' @ [CHR 0x27] @ ''?)'',
       source = ''perl6''\<rparr>,
      \<lparr>severity = Error,
       range' = \<lparr>start = \<lparr>line = Num 0, character = 0\<rparr>, end' = \<lparr>line = Num 0, character = 1000\<rparr>\<rparr>,
       message = ''Undeclared names:\<newline>  foo used at line 5\<newline>  bar used at line 9 (did you mean '' @
         [CHR 0x27] @ ''baz'' @ [CHR 0x27] @ ''?)\<newline>'',
       source = ''perl6''\<rparr>]
   \<and> parseErrorMessage_server
     (''Undeclared names:\<newline>  foo used at line 5\<newline>  bar used at line 9 (did you mean '' @
      [CHR 0x27] @ ''baz'' @ [CHR 0x27] @ ''?)\<newline>'') []
   = Inr [\<lparr>severity = Error,
       range' = \<lparr>start = \<lparr>line = Num 4, character = 0\<rparr>, end' = \<lparr>line = Num 4, character = 1000\<rparr>\<rparr>,
       message = ''name foo is not declared'',
       source = ''perl6''\<rparr>,
      \<lparr>severity = Error,
       range' = \<lparr>start = \<lparr>line = Num 8, character = 0\<rparr>, end' = \<lparr>line = Num 8, character = 1000\<rparr>\<rparr>,
       message = ''name bar is not declared (did you mean '' @ [CHR 0x27] @ ''baz'' @ [CHR 0x27] @ ''?)'',
       source = ''perl6''\<rparr>]"
  by code_simp

text \<open>
  C5. Every diagnostic of a batch has the severity \<open>Error\<close> and the source \<open>perl6\<close>, and
  its line is \<open>+N - 1\<close> for a number \<open>N\<close> read from the text, or 0: it is at least \<open>-1\<close>
  (\<open>Infinity\<close>, the line of a number too large for a double, is). The claim has it at
  least 0, which a text that reports line 0 refutes.
\<close>

theorem diagnostics_error_perl6_line:
  "(\<forall>d \<in> set (parseErrorMessage msg []).
      severity d = Error \<and> source d = ''perl6'' \<and> at_least (- 1) (line (start (range' d)))) \<and>
   (\<exists>ds. parseErrorMessage_server msg [] = Inr ds \<and>
      (\<forall>d \<in> set ds.
         severity d = Error \<and> source d = ''perl6'' \<and> at_least (- 1) (line (start (range' d)))))"
proof -
  have a: "list_all diag_ok (parseErrorMessage msg [])"
    by (rule parseErrorMessage_ok) simp
  obtain ds where ds: "parseErrorMessage_server msg [] = Inr ds"
    using parseErrorMessage_server_returns by blast
  then have b: "list_all diag_ok ds"
    using parseErrorMessage_server_ok [OF _ ds] by simp
  from a b ds show ?thesis
    by (auto simp: list_all_iff diag_ok_def)
qed

theorem diagnostics_error_perl6_line_witness:
  "parseErrorMessage ''Could not find Foo::Bar at line 3 in:\<newline>    /usr/lib/perl6'' []
     = [\<lparr>severity = Error,
         range' = \<lparr>start = \<lparr>line = Num 2, character = 0\<rparr>, end' = \<lparr>line = Num 2, character = 1000\<rparr>\<rparr>,
         message = ''Could not find Foo::Bar in:\<newline>    /usr/lib/perl6'',
         source = ''perl6''\<rparr>] \<and>
   parseErrorMessage_server ''Could not find Foo::Bar at line 3 in:\<newline>    /usr/lib/perl6'' []
     = Inr (parseErrorMessage ''Could not find Foo::Bar at line 3 in:\<newline>    /usr/lib/perl6'' []) \<and>
   severity (hd (parseErrorMessage ''Could not find Foo::Bar at line 3 in:\<newline>    /usr/lib/perl6'' []))
     = Error \<and>
   source (hd (parseErrorMessage ''Could not find Foo::Bar at line 3 in:\<newline>    /usr/lib/perl6'' []))
     = ''perl6'' \<and>
   at_least (- 1) (line (start (range' (hd
       (parseErrorMessage ''Could not find Foo::Bar at line 3 in:\<newline>    /usr/lib/perl6'' [])))))"
proof -
  have e: "parseErrorMessage ''Could not find Foo::Bar at line 3 in:\<newline>    /usr/lib/perl6'' []
     = [\<lparr>severity = Error,
         range' = \<lparr>start = \<lparr>line = Num 2, character = 0\<rparr>, end' = \<lparr>line = Num 2, character = 1000\<rparr>\<rparr>,
         message = ''Could not find Foo::Bar in:\<newline>    /usr/lib/perl6'',
         source = ''perl6''\<rparr>]"
    by code_simp
  have s: "parseErrorMessage_server ''Could not find Foo::Bar at line 3 in:\<newline>    /usr/lib/perl6'' []
     = Inr [\<lparr>severity = Error,
         range' = \<lparr>start = \<lparr>line = Num 2, character = 0\<rparr>, end' = \<lparr>line = Num 2, character = 1000\<rparr>\<rparr>,
         message = ''Could not find Foo::Bar in:\<newline>    /usr/lib/perl6'',
         source = ''perl6''\<rparr>]"
    by code_simp
  from diagnostics_error_perl6_line
    [of "''Could not find Foo::Bar at line 3 in:\<newline>    /usr/lib/perl6''"]
  show ?thesis unfolding e s by simp
qed

theorem line_zero_counterexample:
  "parseErrorMessage ''Could not find Foo::Bar at line 0 in:\<newline>    /usr/lib/perl6'' []
     = [\<lparr>severity = Error,
         range' = \<lparr>start = \<lparr>line = Num (- 1), character = 0\<rparr>, end' = \<lparr>line = Num (- 1), character = 1000\<rparr>\<rparr>,
         message = ''Could not find Foo::Bar in:\<newline>    /usr/lib/perl6'',
         source = ''perl6''\<rparr>] \<and>
   parseErrorMessage_server ''Could not find Foo::Bar at line 0 in:\<newline>    /usr/lib/perl6'' []
     = Inr [\<lparr>severity = Error,
         range' = \<lparr>start = \<lparr>line = Num (- 1), character = 0\<rparr>, end' = \<lparr>line = Num (- 1), character = 1000\<rparr>\<rparr>,
         message = ''Could not find Foo::Bar in:\<newline>    /usr/lib/perl6'',
         source = ''perl6''\<rparr>] \<and>
   \<not> at_least 0 (line (start (range' (hd
       (parseErrorMessage ''Could not find Foo::Bar at line 0 in:\<newline>    /usr/lib/perl6'' [])))))"
proof -
  have e: "parseErrorMessage ''Could not find Foo::Bar at line 0 in:\<newline>    /usr/lib/perl6'' []
     = [\<lparr>severity = Error,
         range' = \<lparr>start = \<lparr>line = Num (- 1), character = 0\<rparr>, end' = \<lparr>line = Num (- 1), character = 1000\<rparr>\<rparr>,
         message = ''Could not find Foo::Bar in:\<newline>    /usr/lib/perl6'',
         source = ''perl6''\<rparr>]"
    by code_simp
  have s: "parseErrorMessage_server ''Could not find Foo::Bar at line 0 in:\<newline>    /usr/lib/perl6'' []
     = Inr [\<lparr>severity = Error,
         range' = \<lparr>start = \<lparr>line = Num (- 1), character = 0\<rparr>, end' = \<lparr>line = Num (- 1), character = 1000\<rparr>\<rparr>,
         message = ''Could not find Foo::Bar in:\<newline>    /usr/lib/perl6'',
         source = ''perl6''\<rparr>]"
    by code_simp
  show ?thesis unfolding e s by simp
qed

text \<open>
  C10. Every diagnostic of a batch, from every shape, spans its one line from character 0
  to character 1000: the start and the end of its range are on the same line.
\<close>

theorem diagnostics_span_whole_line:
  "(\<forall>d \<in> set (parseErrorMessage msg []).
      character (start (range' d)) = 0 \<and> character (end' (range' d)) = 1000 \<and>
      line (end' (range' d)) = line (start (range' d))) \<and>
   (\<exists>ds. parseErrorMessage_server msg [] = Inr ds \<and>
      (\<forall>d \<in> set ds.
         character (start (range' d)) = 0 \<and> character (end' (range' d)) = 1000 \<and>
         line (end' (range' d)) = line (start (range' d))))"
proof -
  have a: "list_all diag_ok (parseErrorMessage msg [])"
    by (rule parseErrorMessage_ok) simp
  obtain ds where ds: "parseErrorMessage_server msg [] = Inr ds"
    using parseErrorMessage_server_returns by blast
  then have b: "list_all diag_ok ds"
    using parseErrorMessage_server_ok [OF _ ds] by simp
  from a b ds show ?thesis
    by (auto simp: list_all_iff diag_ok_def)
qed

theorem diagnostics_span_whole_line_witness:
  "parseErrorMessage ''Undeclared routine:\<newline>    frobnicate used at line 7'' []
     = [\<lparr>severity = Error,
         range' = \<lparr>start = \<lparr>line = Num 6, character = 0\<rparr>, end' = \<lparr>line = Num 6, character = 1000\<rparr>\<rparr>,
         message = ''routine frobnicate is not declared'',
         source = ''perl6''\<rparr>] \<and>
   parseErrorMessage_server ''Undeclared routine:\<newline>    frobnicate used at line 7'' []
     = Inr (parseErrorMessage ''Undeclared routine:\<newline>    frobnicate used at line 7'' []) \<and>
   character (start (range' (hd
       (parseErrorMessage ''Undeclared routine:\<newline>    frobnicate used at line 7'' [])))) = 0 \<and>
   character (end' (range' (hd
       (parseErrorMessage ''Undeclared routine:\<newline>    frobnicate used at line 7'' [])))) = 1000 \<and>
   line (end' (range' (hd
       (parseErrorMessage ''Undeclared routine:\<newline>    frobnicate used at line 7'' [])))) =
   line (start (range' (hd
       (parseErrorMessage ''Undeclared routine:\<newline>    frobnicate used at line 7'' []))))"
proof -
  have e: "parseErrorMessage ''Undeclared routine:\<newline>    frobnicate used at line 7'' []
     = [\<lparr>severity = Error,
         range' = \<lparr>start = \<lparr>line = Num 6, character = 0\<rparr>, end' = \<lparr>line = Num 6, character = 1000\<rparr>\<rparr>,
         message = ''routine frobnicate is not declared'',
         source = ''perl6''\<rparr>]"
    by code_simp
  have s: "parseErrorMessage_server ''Undeclared routine:\<newline>    frobnicate used at line 7'' []
     = Inr [\<lparr>severity = Error,
         range' = \<lparr>start = \<lparr>line = Num 6, character = 0\<rparr>, end' = \<lparr>line = Num 6, character = 1000\<rparr>\<rparr>,
         message = ''routine frobnicate is not declared'',
         source = ''perl6''\<rparr>]"
    by code_simp
  from diagnostics_span_whole_line [of "''Undeclared routine:\<newline>    frobnicate used at line 7''"]
  show ?thesis unfolding e s by simp
qed

text \<open>
  C9. The extractor is a function of the text and of the batch it is given: no regular
  expression of the parser carries the \<open>g\<close> or \<open>y\<close> flag into \<open>exec\<close>, so none keeps a
  position between calls, and no variable of the module is read. The diagnostics it
  appends depend on the text alone: a run on any batch returns that batch followed by
  what a run on the empty batch returns. Two runs on the same text, each from an empty
  batch, therefore return the same batch.
\<close>

theorem extractor_depends_on_text_only:
  "parseErrorMessage msg ds = ds @ parseErrorMessage msg [] \<and>
   (\<exists>batch. parseErrorMessage_server msg [] = Inr batch \<and>
      parseErrorMessage_server msg ds = Inr (ds @ batch))"
proof -
  obtain batch where b: "parseErrorMessage_server msg [] = Inr batch"
    using parseErrorMessage_server_returns by blast
  with parseErrorMessage_server_append [of msg ds "[]"]
  have "parseErrorMessage_server msg ds = Inr (ds @ batch)" by simp
  with b parseErrorMessage_append [of msg ds "[]"] show ?thesis by simp
qed

text \<open>
  C8. An undeclared list gives one diagnostic for each line of the longest run of lines,
  from the first, that match \<open><identifier> used at line <N>\<close>, and nothing for the first
  line that does not match nor for any line after it, whether it matches or not. Both
  parsers do so. (What a line that matches looks like, and its diagnostic, is
  \<open>line_diagnostic_entry\<close>.)
\<close>

theorem undeclared_list_stops_at_first_mismatch:
  "parseUndeclared type lines ds =
     ds @ concat (map (line_diagnostic type)
            (takeWhile (\<lambda>l. exec re_used_at l \<noteq> None) (split_lines lines))) \<and>
   length (parseUndeclared type lines ds) =
     length ds + length (takeWhile (\<lambda>l. exec re_used_at l \<noteq> None) (split_lines lines)) \<and>
   parse_undeclared type lines ds = parseUndeclared type lines ds"
proof (intro conjI)
  show e: "parseUndeclared type lines ds =
     ds @ concat (map (line_diagnostic type)
            (takeWhile (\<lambda>l. exec re_used_at l \<noteq> None) (split_lines lines)))"
    unfolding parseUndeclared_def by (rule parseUndeclared_loop_takeWhile)
  show "length (parseUndeclared type lines ds) =
     length ds + length (takeWhile (\<lambda>l. exec re_used_at l \<noteq> None) (split_lines lines))"
    by (simp only: e length_append length_line_diagnostics)
  show "parse_undeclared type lines ds = parseUndeclared type lines ds"
    by (simp add: parse_undeclared_eq)
qed

theorem undeclared_list_stops_at_first_mismatch_witness:
  "parseUndeclared ''name''
      ''    foo used at line 5\<newline>    bar is something else\<newline>    baz used at line 9\<newline>'' []
     = [\<lparr>severity = Error,
         range' = \<lparr>start = \<lparr>line = Num 4, character = 0\<rparr>, end' = \<lparr>line = Num 4, character = 1000\<rparr>\<rparr>,
         message = ''name foo is not declared'',
         source = ''perl6''\<rparr>] \<and>
   takeWhile (\<lambda>l. exec re_used_at l \<noteq> None)
     (split_lines ''    foo used at line 5\<newline>    bar is something else\<newline>    baz used at line 9\<newline>'')
     = [''    foo used at line 5''] \<and>
   exec re_used_at ''    baz used at line 9'' \<noteq> None"
proof -
  have t: "takeWhile (\<lambda>l. exec re_used_at l \<noteq> None)
     (split_lines ''    foo used at line 5\<newline>    bar is something else\<newline>    baz used at line 9\<newline>'')
     = [''    foo used at line 5'']"
    by code_simp
  have d: "line_diagnostic ''name'' ''    foo used at line 5'' =
      [\<lparr>severity = Error,
         range' = \<lparr>start = \<lparr>line = Num 4, character = 0\<rparr>, end' = \<lparr>line = Num 4, character = 1000\<rparr>\<rparr>,
         message = ''name foo is not declared'',
         source = ''perl6''\<rparr>]"
    by code_simp
  have b: "exec re_used_at ''    baz used at line 9'' \<noteq> None"
    by code_simp
  from undeclared_list_stops_at_first_mismatch [of "''name''"
      "''    foo used at line 5\<newline>    bar is something else\<newline>    baz used at line 9\<newline>''" "[]"]
  show ?thesis unfolding t using d b by simp
qed






text \<open>
  C6. A text that has an \<open>Undeclared names:\<close> block and an \<open>Undeclared routines:\<close> block
  (and is not of the missing-library shape, which comes first) gives the diagnostics of
  the lines under the first header of names, then the diagnostics of the lines under
  the first header of routines: all of the former before all of the latter, wherever the
  two blocks stand in the text. The list of a header is all the text after its line break.
\<close>

theorem undeclared_names_then_routines:
  assumes "exec re_missing_libs msg = None"
    and "msg = p1 @ ''Undeclared name'' @ s1 @ '':'' @ b1 @ names"
    and "s1 = [] \<or> s1 = ''s''" "b1 = [LF] \<or> b1 = [CR, LF]" "names \<noteq> []"
    and "list_all (\<lambda>j. match_here re_undeclared_names j (drop j msg) = None) [0 ..< length p1]"
    and "msg = p2 @ ''Undeclared routine'' @ s2 @ '':'' @ b2 @ routines"
    and "s2 = [] \<or> s2 = ''s''" "b2 = [LF] \<or> b2 = [CR, LF]" "routines \<noteq> []"
    and "list_all (\<lambda>j. match_here re_undeclared_routines j (drop j msg) = None) [0 ..< length p2]"
  shows "parseErrorMessage msg [] =
           concat (map (line_diagnostic ''name'')
             (takeWhile (\<lambda>l. exec re_used_at l \<noteq> None) (split_lines names))) @
           concat (map (line_diagnostic ''routine'')
             (takeWhile (\<lambda>l. exec re_used_at l \<noteq> None) (split_lines routines))) \<and>
         parseErrorMessage_server msg [] = Inr (parseErrorMessage msg [])"
proof -
  have "match_here re_undeclared_names (length p1) (''Undeclared name'' @ s1 @ '':'' @ b1 @ names)
      = Some ([names], length ''Undeclared name'' + length s1 + 1 + length b1 + length names)"
    unfolding re_undeclared_names_def using assms(3-5) by (rule match_undeclared_header)
  with assms(6) [unfolded assms(2)]
  have "exec re_undeclared_names (p1 @ ''Undeclared name'' @ s1 @ '':'' @ b1 @ names) =
      Some \<lparr>index = length p1,
        matched = take (length ''Undeclared name'' + length s1 + 1 + length b1 + length names)
          (''Undeclared name'' @ s1 @ '':'' @ b1 @ names),
        groups = [names]\<rparr>"
    by (rule exec_first_match)
  then obtain mn where mn: "exec re_undeclared_names msg = Some mn" "group mn 1 = names"
    unfolding assms(2) by (simp add: group_def)
  have "match_here re_undeclared_routines (length p2)
        (''Undeclared routine'' @ s2 @ '':'' @ b2 @ routines)
      = Some ([routines], length ''Undeclared routine'' + length s2 + 1 + length b2 + length routines)"
    unfolding re_undeclared_routines_def using assms(8-10) by (rule match_undeclared_header)
  with assms(11) [unfolded assms(7)]
  have "exec re_undeclared_routines (p2 @ ''Undeclared routine'' @ s2 @ '':'' @ b2 @ routines) =
      Some \<lparr>index = length p2,
        matched = take (length ''Undeclared routine'' + length s2 + 1 + length b2 + length routines)
          (''Undeclared routine'' @ s2 @ '':'' @ b2 @ routines),
        groups = [routines]\<rparr>"
    by (rule exec_first_match)
  then obtain mr where mr: "exec re_undeclared_routines msg = Some mr" "group mr 1 = routines"
    unfolding assms(7) by (simp add: group_def)
  have c: "parseErrorMessage msg [] =
      parseUndeclared_loop ''routine'' (split_lines routines)
        (parseUndeclared_loop ''name'' (split_lines names) [])"
    using assms(1) mn mr by (simp add: parseErrorMessage_def parseUndeclared_def)
  have s: "parseErrorMessage_server msg [] = Inr (parseErrorMessage msg [])"
    using assms(1) mn mr
    by (simp add: parseErrorMessage_def parseErrorMessage_server_def parse_undeclared_eq)
  from c s show ?thesis
    by (simp only: parseUndeclared_loop_takeWhile append_Nil simp_thms)
qed

theorem undeclared_names_then_routines_witness:
  "exec re_missing_libs
     ''===SORRY!=== Error while compiling /tmp/x.p6\<newline>Undeclared name:\<newline>    Foo used at line 3\<newline>Undeclared routines:\<newline>    bar used at line 5\<newline>    baz used at line 9. Did you mean bat?\<newline>''
     = None \<and>
   list_all (\<lambda>j. match_here re_undeclared_names j (drop j
     ''===SORRY!=== Error while compiling /tmp/x.p6\<newline>Undeclared name:\<newline>    Foo used at line 3\<newline>Undeclared routines:\<newline>    bar used at line 5\<newline>    baz used at line 9. Did you mean bat?\<newline>'')
       = None)
     [0 ..< length ''===SORRY!=== Error while compiling /tmp/x.p6\<newline>''] \<and>
   list_all (\<lambda>j. match_here re_undeclared_routines j (drop j
     ''===SORRY!=== Error while compiling /tmp/x.p6\<newline>Undeclared name:\<newline>    Foo used at line 3\<newline>Undeclared routines:\<newline>    bar used at line 5\<newline>    baz used at line 9. Did you mean bat?\<newline>'')
       = None)
     [0 ..< length ''===SORRY!=== Error while compiling /tmp/x.p6\<newline>Undeclared name:\<newline>    Foo used at line 3\<newline>''] \<and>
   parseErrorMessage
     ''===SORRY!=== Error while compiling /tmp/x.p6\<newline>Undeclared name:\<newline>    Foo used at line 3\<newline>Undeclared routines:\<newline>    bar used at line 5\<newline>    baz used at line 9. Did you mean bat?\<newline>'' []
     = [\<lparr>severity = Error,
         range' = \<lparr>start = \<lparr>line = Num 2, character = 0\<rparr>, end' = \<lparr>line = Num 2, character = 1000\<rparr>\<rparr>,
         message = ''name Foo is not declared'',
         source = ''perl6''\<rparr>,
        \<lparr>severity = Error,
         range' = \<lparr>start = \<lparr>line = Num 4, character = 0\<rparr>, end' = \<lparr>line = Num 4, character = 1000\<rparr>\<rparr>,
         message = ''routine bar is not declared'',
         source = ''perl6''\<rparr>,
        \<lparr>severity = Error,
         range' = \<lparr>start = \<lparr>line = Num 8, character = 0\<rparr>, end' = \<lparr>line = Num 8, character = 1000\<rparr>\<rparr>,
         message = ''routine baz is not declared. Did you mean bat?'',
         source = ''perl6''\<rparr>] \<and>
   parseErrorMessage_server
     ''===SORRY!=== Error while compiling /tmp/x.p6\<newline>Undeclared name:\<newline>    Foo used at line 3\<newline>Undeclared routines:\<newline>    bar used at line 5\<newline>    baz used at line 9. Did you mean bat?\<newline>'' []
     = Inr (parseErrorMessage
     ''===SORRY!=== Error while compiling /tmp/x.p6\<newline>Undeclared name:\<newline>    Foo used at line 3\<newline>Undeclared routines:\<newline>    bar used at line 5\<newline>    baz used at line 9. Did you mean bat?\<newline>'' [])"
proof -
  let ?msg = "''===SORRY!=== Error while compiling /tmp/x.p6\<newline>Undeclared name:\<newline>    Foo used at line 3\<newline>Undeclared routines:\<newline>    bar used at line 5\<newline>    baz used at line 9. Did you mean bat?\<newline>''"
  let ?names = "''    Foo used at line 3\<newline>Undeclared routines:\<newline>    bar used at line 5\<newline>    baz used at line 9. Did you mean bat?\<newline>''"
  let ?routines = "''    bar used at line 5\<newline>    baz used at line 9. Did you mean bat?\<newline>''"
  have a: "exec re_missing_libs ?msg = None" by code_simp
  have b: "list_all (\<lambda>j. match_here re_undeclared_names j (drop j ?msg) = None)
     [0 ..< length ''===SORRY!=== Error while compiling /tmp/x.p6\<newline>'']" by code_simp
  have c: "list_all (\<lambda>j. match_here re_undeclared_routines j (drop j ?msg) = None)
     [0 ..< length ''===SORRY!=== Error while compiling /tmp/x.p6\<newline>Undeclared name:\<newline>    Foo used at line 3\<newline>'']"
    by code_simp
  have d1: "?msg = ''===SORRY!=== Error while compiling /tmp/x.p6\<newline>'' @ ''Undeclared name'' @ [] @ '':'' @
      [LF] @ ?names"
    by (simp add: LF_def)
  have d2: "?msg = ''===SORRY!=== Error while compiling /tmp/x.p6\<newline>Undeclared name:\<newline>    Foo used at line 3\<newline>'' @
      ''Undeclared routine'' @ ''s'' @ '':'' @ [LF] @ ?routines"
    by (simp add: LF_def)
  have n: "concat (map (line_diagnostic ''name'')
             (takeWhile (\<lambda>l. exec re_used_at l \<noteq> None) (split_lines ?names))) =
      [\<lparr>severity = Error,
         range' = \<lparr>start = \<lparr>line = Num 2, character = 0\<rparr>, end' = \<lparr>line = Num 2, character = 1000\<rparr>\<rparr>,
         message = ''name Foo is not declared'',
         source = ''perl6''\<rparr>]"
    by code_simp
  have r: "concat (map (line_diagnostic ''routine'')
             (takeWhile (\<lambda>l. exec re_used_at l \<noteq> None) (split_lines ?routines))) =
      [\<lparr>severity = Error,
         range' = \<lparr>start = \<lparr>line = Num 4, character = 0\<rparr>, end' = \<lparr>line = Num 4, character = 1000\<rparr>\<rparr>,
         message = ''routine bar is not declared'',
         source = ''perl6''\<rparr>,
        \<lparr>severity = Error,
         range' = \<lparr>start = \<lparr>line = Num 8, character = 0\<rparr>, end' = \<lparr>line = Num 8, character = 1000\<rparr>\<rparr>,
         message = ''routine baz is not declared. Did you mean bat?'',
         source = ''perl6''\<rparr>]"
    by code_simp
  from undeclared_names_then_routines [OF a d1 _ _ _ b d2 _ _ _ c]
  have "parseErrorMessage ?msg [] =
           concat (map (line_diagnostic ''name'')
             (takeWhile (\<lambda>l. exec re_used_at l \<noteq> None) (split_lines ?names))) @
           concat (map (line_diagnostic ''routine'')
             (takeWhile (\<lambda>l. exec re_used_at l \<noteq> None) (split_lines ?routines))) \<and>
         parseErrorMessage_server ?msg [] = Inr (parseErrorMessage ?msg [])"
    by simp
  then show ?thesis unfolding n r using a b c by simp
qed


text \<open>
  C3. When none of the three special patterns matches the text and the text, once the
  banner is taken out, has no generic block, \<open>parseErrorMessage\<close> of
  \<open>client/package.json\<close> returns exactly one diagnostic, at line 0, whose message is the
  text without the first match of
  \<open>===SORRY.*\r?\n\<close>: from the first \<open>===SORRY\<close> that has a line feed at the end of its
  line, through that line feed, wherever in the text it stands. (For a text that begins
  with a banner line this is the text without that line, see
  \<open>replace_sorry_leading_banner\<close>.) \<open>parseErrorMessage\<close> of \<open>server.ts\<close> has no such
  fallback: it returns the empty batch.
\<close>

theorem fallback_one_diagnostic_at_line_zero:
  assumes "exec re_missing_libs msg = None"
    and "exec re_undeclared_names msg = None"
    and "exec re_undeclared_routines msg = None"
    and "exec re_generic (replace_empty re_sorry msg) = None"
  shows "parseErrorMessage msg [] =
           [\<lparr>severity = Error,
             range' = \<lparr>start = \<lparr>line = Num 0, character = 0\<rparr>,
                       end' = \<lparr>line = Num 0, character = 1000\<rparr>\<rparr>,
             message = replace_empty re_sorry msg,
             source = ''perl6''\<rparr>] \<and>
         parseErrorMessage_server msg [] = Inr []"
proof -
  from assms(4) have "exec re_generics (replace_empty re_sorry msg) = None"
    by (simp add: exec_re_generics_None)
  with assms show ?thesis
    by (simp add: parseErrorMessage_def parseErrorMessage_server_def parseGenerics_def
        parse_generics_def parse_generics_loop_None)
qed

theorem fallback_one_diagnostic_at_line_zero_witness:
  "exec re_missing_libs ''===SORRY!===\<newline>Cannot open the file'' = None \<and>
   exec re_undeclared_names ''===SORRY!===\<newline>Cannot open the file'' = None \<and>
   exec re_undeclared_routines ''===SORRY!===\<newline>Cannot open the file'' = None \<and>
   exec re_generic (replace_empty re_sorry ''===SORRY!===\<newline>Cannot open the file'') = None \<and>
   parseErrorMessage ''===SORRY!===\<newline>Cannot open the file'' [] =
     [\<lparr>severity = Error,
       range' = \<lparr>start = \<lparr>line = Num 0, character = 0\<rparr>, end' = \<lparr>line = Num 0, character = 1000\<rparr>\<rparr>,
       message = ''Cannot open the file'',
       source = ''perl6''\<rparr>] \<and>
   parseErrorMessage_server ''===SORRY!===\<newline>Cannot open the file'' [] = Inr []"
proof -
  have a: "exec re_missing_libs ''===SORRY!===\<newline>Cannot open the file'' = None" by code_simp
  have b: "exec re_undeclared_names ''===SORRY!===\<newline>Cannot open the file'' = None" by code_simp
  have c: "exec re_undeclared_routines ''===SORRY!===\<newline>Cannot open the file'' = None" by code_simp
  have r: "replace_empty re_sorry ''===SORRY!===\<newline>Cannot open the file'' = ''Cannot open the file''"
    by code_simp
  have d: "exec re_generic (replace_empty re_sorry ''===SORRY!===\<newline>Cannot open the file'') = None"
    unfolding r by code_simp
  from fallback_one_diagnostic_at_line_zero [OF a b c d]
  show ?thesis using a b c d by (simp add: r)
qed

theorem fallback_counterexample:
  "exec re_missing_libs ''Cannot open the file'' = None \<and>
   exec re_undeclared_names ''Cannot open the file'' = None \<and>
   exec re_undeclared_routines ''Cannot open the file'' = None \<and>
   exec re_generics ''Cannot open the file'' = None \<and>
   parseErrorMessage_server ''Cannot open the file'' [] = Inr [] \<and>
   exec re_missing_libs ''Died ===SORRY!===\<newline>in a block'' = None \<and>
   exec re_undeclared_names ''Died ===SORRY!===\<newline>in a block'' = None \<and>
   exec re_undeclared_routines ''Died ===SORRY!===\<newline>in a block'' = None \<and>
   exec re_generic ''Died ===SORRY!===\<newline>in a block'' = None \<and>
   strip_leading_banner ''Died ===SORRY!===\<newline>in a block'' = ''Died ===SORRY!===\<newline>in a block'' \<and>
   parseErrorMessage ''Died ===SORRY!===\<newline>in a block'' [] =
     [\<lparr>severity = Error,
       range' = \<lparr>start = \<lparr>line = Num 0, character = 0\<rparr>, end' = \<lparr>line = Num 0, character = 1000\<rparr>\<rparr>,
       message = ''Died in a block'',
       source = ''perl6''\<rparr>]"
  by code_simp

text \<open>
  C2. The text, once \<open>replace\<close> has taken the banner out (if there is one), is two
  generic blocks, each a finding on one line, a line \<open>at <file>:<N>\<close> and a line
  \<open>------> <context>\<close>, the second block on the line after the first; it is of none of
  the three special shapes. \<open>parseErrorMessage\<close> of \<open>server.ts\<close> returns exactly two
  diagnostics, in the order of the blocks, each at its block's \<open>N - 1\<close> with its block's
  finding as message. \<open>parseErrorMessage\<close> of \<open>client/package.json\<close>
  matches once and returns exactly one diagnostic, that of the first block. The line is
  \<open>+N - 1\<close> in double precision: it is \<open>N - 1\<close> for \<open>N\<close> up to \<open>2^53 = 9007199254740992\<close>.
\<close>

theorem two_generic_blocks:
  assumes "replace_empty re_sorry msg =
      generic_block F1 f1 N1 C1 @ [LF] @ generic_block F2 f2 N2 C2 @ end_of_text"
    and "list_all (in_cls Dot) F1" "list_all (in_cls Dot) f1"
    and "N1 \<noteq> []" "list_all (in_cls Digit) N1" "list_all (in_cls Dot) C1"
    and "list_all (in_cls Dot) F2" "list_all (in_cls Dot) f2"
    and "N2 \<noteq> []" "list_all (in_cls Digit) N2" "list_all (in_cls Dot) C2"
    and "end_of_text = [] \<or> end_of_text = [LF]"
    and "exec re_missing_libs msg = None"
    and "exec re_undeclared_names msg = None"
    and "exec re_undeclared_routines msg = None"
    and "decimal N1 \<le> 9007199254740992" "decimal N2 \<le> 9007199254740992"
  shows "parseErrorMessage_server msg [] =
           Inr [\<lparr>severity = Error,
                 range' = \<lparr>start = \<lparr>line = Num (decimal N1 - 1), character = 0\<rparr>,
                           end' = \<lparr>line = Num (decimal N1 - 1), character = 1000\<rparr>\<rparr>,
                 message = F1,
                 source = ''perl6''\<rparr>,
                \<lparr>severity = Error,
                 range' = \<lparr>start = \<lparr>line = Num (decimal N2 - 1), character = 0\<rparr>,
                           end' = \<lparr>line = Num (decimal N2 - 1), character = 1000\<rparr>\<rparr>,
                 message = F2,
                 source = ''perl6''\<rparr>] \<and>
         parseErrorMessage msg [] =
           [\<lparr>severity = Error,
             range' = \<lparr>start = \<lparr>line = Num (decimal N1 - 1), character = 0\<rparr>,
                       end' = \<lparr>line = Num (decimal N1 - 1), character = 1000\<rparr>\<rparr>,
             message = F1,
             source = ''perl6''\<rparr>]"
proof -
  let ?B1 = "generic_block F1 f1 N1 C1" and ?B2 = "generic_block F2 f2 N2 C2"
  let ?d1 = "\<lparr>severity = Error,
                 range' = \<lparr>start = \<lparr>line = js_minus (to_number N1) 1, character = 0\<rparr>,
                           end' = \<lparr>line = js_minus (to_number N1) 1, character = 1000\<rparr>\<rparr>,
                 message = F1,
                 source = ''perl6''\<rparr>"
  let ?d2 = "\<lparr>severity = Error,
                 range' = \<lparr>start = \<lparr>line = js_minus (to_number N2) 1, character = 0\<rparr>,
                           end' = \<lparr>line = js_minus (to_number N2) 1, character = 1000\<rparr>\<rparr>,
                 message = F2,
                 source = ''perl6''\<rparr>"
  let ?t2 = "[LF] @ ?B2 @ end_of_text"
  have r1: "[LF] @ ?B2 @ end_of_text = [] \<or> \<not> in_cls Dot (hd ([LF] @ ?B2 @ end_of_text))"
    by simp
  have r2: "end_of_text = [] \<or> \<not> in_cls Dot (hd end_of_text)"
    using assms(12) by auto
  have stripped: "replace_empty re_sorry msg = ?B1 @ ?t2"
    by (rule assms(1))
  \<comment> \<open>the first turn of the loop\<close>
  from exec_generic_block(1) [OF assms(2-6) r1]
  obtain m1 where m1: "exec re_generics (?B1 @ ?t2) = Some m1" "matched m1 = ?B1"
    by (rule exec_generics_of_single) simp
  have p1: "parse_generic_single ?B1 [] = Inr [?d1]"
    using parse_generic_single_block [OF assms(2-6), of "[]"] by simp
  have l1: "parse_generics_loop (?B1 @ ?t2) [] = parse_generics_loop ?t2 [?d1]"
    by (subst parse_generics_loop_Some [OF m1(1)]) (simp add: m1(2) p1)
  \<comment> \<open>the second turn\<close>
  from exec_generic_block_after_line_feed [OF assms(7-11) r2]
  obtain m2 where m2: "exec re_generics ?t2 = Some m2" "matched m2 = ?B2"
    by (rule exec_generics_of_single) simp
  have p2: "parse_generic_single ?B2 [?d1] = Inr [?d1, ?d2]"
    using parse_generic_single_block [OF assms(7-11), of "[?d1]"] by simp
  have l2: "parse_generics_loop ?t2 [?d1] = parse_generics_loop (drop (length ?B2) ?t2) [?d1, ?d2]"
    by (subst parse_generics_loop_Some [OF m2(1)]) (simp add: m2(2) p2)
  \<comment> \<open>the third finds nothing\<close>
  have "length (drop (length ?B2) ?t2) < 15"
    using assms(12) by auto
  then have "exec re_generics (drop (length ?B2) ?t2) = None"
    by (rule exec_generics_short)
  then have l3: "parse_generics_loop (drop (length ?B2) ?t2) [?d1, ?d2] = Inr [?d1, ?d2]"
    by (rule parse_generics_loop_None)
  have "parse_generics msg [] = Inr [?d1, ?d2]"
    unfolding parse_generics_def stripped Let_def l1 l2 l3 ..
  then have server: "parseErrorMessage_server msg [] = Inr [?d1, ?d2]"
    using assms(13-15) by (simp add: parseErrorMessage_server_def)
  \<comment> \<open>\<open>parseGenerics\<close> matches once\<close>
  have "parseGenerics msg [] = [?d1]"
    unfolding parseGenerics_def stripped Let_def exec_generic_block(2) [OF assms(2-6) r1]
    by (simp add: group_def)
  then have client: "parseErrorMessage msg [] = [?d1]"
    using assms(13-15) by (simp add: parseErrorMessage_def)
  from server client show ?thesis
    by (simp add: line_num_exact [OF assms(16)] line_num_exact [OF assms(17)])
qed

theorem two_generic_blocks_witness:
  "list_all (in_cls Dot) ''Missing semicolon'' \<and> list_all (in_cls Dot) ''/tmp/f.p6'' \<and>
   list_all (in_cls Digit) ''3'' \<and> list_all (in_cls Dot) ''my $a = 1'' \<and>
   list_all (in_cls Dot) ''Two terms in a row'' \<and> list_all (in_cls Digit) ''17'' \<and>
   list_all (in_cls Dot) ''say 1 2'' \<and>
   decimal ''3'' \<le> 9007199254740992 \<and> decimal ''17'' \<le> 9007199254740992 \<and>
   replace_empty re_sorry
     ''===SORRY!=== Error while compiling\<newline>Missing semicolon\<newline>at /tmp/f.p6:3\<newline>------> my $a = 1\<newline>Two terms in a row\<newline>at /tmp/f.p6:17\<newline>------> say 1 2\<newline>''
     = generic_block ''Missing semicolon'' ''/tmp/f.p6'' ''3'' ''my $a = 1'' @ [LF] @
       generic_block ''Two terms in a row'' ''/tmp/f.p6'' ''17'' ''say 1 2'' @ [LF] \<and>
   exec re_missing_libs
     ''===SORRY!=== Error while compiling\<newline>Missing semicolon\<newline>at /tmp/f.p6:3\<newline>------> my $a = 1\<newline>Two terms in a row\<newline>at /tmp/f.p6:17\<newline>------> say 1 2\<newline>''
     = None \<and>
   exec re_undeclared_names
     ''===SORRY!=== Error while compiling\<newline>Missing semicolon\<newline>at /tmp/f.p6:3\<newline>------> my $a = 1\<newline>Two terms in a row\<newline>at /tmp/f.p6:17\<newline>------> say 1 2\<newline>''
     = None \<and>
   exec re_undeclared_routines
     ''===SORRY!=== Error while compiling\<newline>Missing semicolon\<newline>at /tmp/f.p6:3\<newline>------> my $a = 1\<newline>Two terms in a row\<newline>at /tmp/f.p6:17\<newline>------> say 1 2\<newline>''
     = None \<and>
   parseErrorMessage_server
     ''===SORRY!=== Error while compiling\<newline>Missing semicolon\<newline>at /tmp/f.p6:3\<newline>------> my $a = 1\<newline>Two terms in a row\<newline>at /tmp/f.p6:17\<newline>------> say 1 2\<newline>'' []
     = Inr [\<lparr>severity = Error,
             range' = \<lparr>start = \<lparr>line = Num 2, character = 0\<rparr>, end' = \<lparr>line = Num 2, character = 1000\<rparr>\<rparr>,
             message = ''Missing semicolon'',
             source = ''perl6''\<rparr>,
            \<lparr>severity = Error,
             range' = \<lparr>start = \<lparr>line = Num 16, character = 0\<rparr>, end' = \<lparr>line = Num 16, character = 1000\<rparr>\<rparr>,
             message = ''Two terms in a row'',
             source = ''perl6''\<rparr>] \<and>
   parseErrorMessage
     ''===SORRY!=== Error while compiling\<newline>Missing semicolon\<newline>at /tmp/f.p6:3\<newline>------> my $a = 1\<newline>Two terms in a row\<newline>at /tmp/f.p6:17\<newline>------> say 1 2\<newline>'' []
     = [\<lparr>severity = Error,
         range' = \<lparr>start = \<lparr>line = Num 2, character = 0\<rparr>, end' = \<lparr>line = Num 2, character = 1000\<rparr>\<rparr>,
         message = ''Missing semicolon'',
         source = ''perl6''\<rparr>]"
proof -
  let ?msg = "''===SORRY!=== Error while compiling\<newline>Missing semicolon\<newline>at /tmp/f.p6:3\<newline>------> my $a = 1\<newline>Two terms in a row\<newline>at /tmp/f.p6:17\<newline>------> say 1 2\<newline>''"
  have w: "list_all (in_cls Dot) ''Missing semicolon''" "list_all (in_cls Dot) ''/tmp/f.p6''"
    "list_all (in_cls Digit) ''3''" "list_all (in_cls Dot) ''my $a = 1''"
    "list_all (in_cls Dot) ''Two terms in a row''" "list_all (in_cls Digit) ''17''"
    "list_all (in_cls Dot) ''say 1 2''"
    by code_simp+
  have a: "exec re_missing_libs ?msg = None" by code_simp
  have b: "exec re_undeclared_names ?msg = None" by code_simp
  have c: "exec re_undeclared_routines ?msg = None" by code_simp
  have n: "decimal ''3'' \<le> 9007199254740992" "decimal ''17'' \<le> 9007199254740992"
    "decimal ''3'' - 1 = 2" "decimal ''17'' - 1 = 16" by code_simp+
  have "replace_empty re_sorry ?msg =
      ''Missing semicolon\<newline>at /tmp/f.p6:3\<newline>------> my $a = 1\<newline>Two terms in a row\<newline>at /tmp/f.p6:17\<newline>------> say 1 2\<newline>''"
    by code_simp
  then have e: "replace_empty re_sorry ?msg =
      generic_block ''Missing semicolon'' ''/tmp/f.p6'' ''3'' ''my $a = 1'' @ [LF] @
      generic_block ''Two terms in a row'' ''/tmp/f.p6'' ''17'' ''say 1 2'' @ [LF]"
    by (simp add: generic_block_def LF_def)
  from two_generic_blocks [OF e w(1,2) _ w(3,4,5,2) _ w(6,7) _ a b c n(1,2)]
  show ?thesis using w a b c e n(1,2) by (simp add: n(3,4))
qed

theorem two_generic_blocks_counterexample:
  "generic_block ''Missing semicolon'' ''/tmp/f.p6'' ''3'' ''my $a = 1'' @ [LF] @
     generic_block ''Two terms in a row'' ''/tmp/f.p6'' ''17'' ''say 1 2'' @ [LF]
     = ''Missing semicolon\<newline>at /tmp/f.p6:3\<newline>------> my $a = 1\<newline>Two terms in a row\<newline>at /tmp/f.p6:17\<newline>------> say 1 2\<newline>'' \<and>
   parseErrorMessage
     ''Missing semicolon\<newline>at /tmp/f.p6:3\<newline>------> my $a = 1\<newline>Two terms in a row\<newline>at /tmp/f.p6:17\<newline>------> say 1 2\<newline>'' []
     = [\<lparr>severity = Error,
         range' = \<lparr>start = \<lparr>line = Num 2, character = 0\<rparr>, end' = \<lparr>line = Num 2, character = 1000\<rparr>\<rparr>,
         message = ''Missing semicolon'',
         source = ''perl6''\<rparr>] \<and>
   length (parseErrorMessage
     ''Missing semicolon\<newline>at /tmp/f.p6:3\<newline>------> my $a = 1\<newline>Two terms in a row\<newline>at /tmp/f.p6:17\<newline>------> say 1 2\<newline>'' [])
     = 1 \<and>
   decimal ''9007199254740993'' - 1 = 9007199254740992 \<and>
   parseErrorMessage_server
     (generic_block ''Missing semicolon'' ''/tmp/f.p6'' ''9007199254740993'' ''my $a = 1'' @ [LF] @
      generic_block ''Two terms in a row'' ''/tmp/f.p6'' ''17'' ''say 1 2'' @ [LF]) []
     = Inr [\<lparr>severity = Error,
             range' = \<lparr>start = \<lparr>line = Num 9007199254740991, character = 0\<rparr>,
                       end' = \<lparr>line = Num 9007199254740991, character = 1000\<rparr>\<rparr>,
             message = ''Missing semicolon'',
             source = ''perl6''\<rparr>,
            \<lparr>severity = Error,
             range' = \<lparr>start = \<lparr>line = Num 16, character = 0\<rparr>, end' = \<lparr>line = Num 16, character = 1000\<rparr>\<rparr>,
             message = ''Two terms in a row'',
             source = ''perl6''\<rparr>]"
  by code_simp

end
